theory Spec2Isabelle
  imports Main "HOL-Library.Word"
begin

unbundle bit_operations_syntax

section \<open>The bladeRF sink and its device handling\<close>

text \<open>
  This theory embeds the burst engine, the work function and the start function of
  \<^verbatim>\<open>lib/bladerf/bladerf_sink_c.cc\<close>, and the buffer policy and the device registry of
  \<^verbatim>\<open>lib/bladerf/bladerf_common.cc\<close>.

  Conventions. A C \<^verbatim>\<open>int\<close> is an \<open>int\<close>, a \<^verbatim>\<open>size_t\<close> or \<^verbatim>\<open>uint64_t\<close> a \<open>nat\<close>; no
  operation of the modelled code leaves the machine range for the blocks a scheduler hands
  over, so no wrap-around is written out. The 32-bit field \<^verbatim>\<open>meta.flags\<close> is a \<open>32 word\<close>.
  The numeric contents of \<^verbatim>\<open>_conv_buf\<close> come from a floating-point scaling and never
  influence control flow; a transmit call is identified by the place its buffer argument
  points to, its sample count, its metadata flags and its timeout.
\<close>

subsection \<open>Constants of libbladeRF and of the GNU Radio runtime\<close>

text \<open>Values of \<^verbatim>\<open>libbladeRF.h\<close>: the flags are bits 0, 1 and 2 of \<^verbatim>\<open>meta.flags\<close>.\<close>

definition BLADERF_META_FLAG_TX_BURST_START :: "32 word" where
  "BLADERF_META_FLAG_TX_BURST_START = 1"

definition BLADERF_META_FLAG_TX_BURST_END :: "32 word" where
  "BLADERF_META_FLAG_TX_BURST_END = 2"

definition BLADERF_META_FLAG_TX_NOW :: "32 word" where
  "BLADERF_META_FLAG_TX_NOW = 4"

definition BLADERF_ERR_INVAL :: int where
  "BLADERF_ERR_INVAL = - 3"

text \<open>\<^verbatim>\<open>gr::block::WORK_DONE\<close>, the end-of-stream value a work function returns.\<close>

definition WORK_DONE :: int where
  "WORK_DONE = - 1"

definition INVALID_IDX :: int where
  "INVALID_IDX = - 1"

subsection \<open>Transmit calls and the transport\<close>

text \<open>
  The buffer argument of \<^verbatim>\<open>bladerf_sync_tx\<close>: either \<^verbatim>\<open>&_conv_buf[i]\<close>, or a local array
  given by its contents.
\<close>

datatype buf_ptr = conv_buf_at int | local_buf "int list"

record tx_call =
  buf :: buf_ptr
  num_samples :: int
  meta :: "32 word option"
  timeout_ms :: nat

text \<open>
  The transport is outside the program. It is a parameter: any function from the calls
  issued so far and the present call to a status, so that a status may depend on the whole
  history.
\<close>

type_synonym transport = "tx_call list \<Rightarrow> tx_call \<Rightarrow> int"

text \<open>The messages the modelled code writes to \<^verbatim>\<open>std::cerr\<close>.\<close>

datatype diag =
  Dropping_samples int
  | Sob_within_burst
  | Eob_not_in_burst
  | Sync_tx_error int
  | Consecutive_error_limit
  | Sync_config_failed int
  | Enable_module_failed int
  | Invalid_buflen
  | Clamping_num_transfers nat

text \<open>The exceptions the modelled code throws.\<close>

datatype error =
  Bad_lexical_cast
  | Realloc_failed
  | Devinfo_from_str_failed
  | Cached_devinfo_failed
  | Open_failed
  | Bad_weak_ptr

text \<open>
  The members of \<^verbatim>\<open>bladerf_common\<close> that the modelled code reads or writes, with two
  fields that record its effects on the outside: \<open>tx_log\<close>, every \<^verbatim>\<open>bladerf_sync_tx\<close>
  call issued so far (oldest first), and \<open>cerr\<close>, what was written to \<^verbatim>\<open>std::cerr\<close>.
  \<^verbatim>\<open>bladerf_sink_c\<close> derives from \<^verbatim>\<open>bladerf_common\<close> and adds \<^verbatim>\<open>_in_burst\<close>.
\<close>

record bladerf_common =
  num_buffers :: nat
  samples_per_buffer :: nat
  num_transfers :: nat
  stream_timeout_ms :: nat
  use_metadata :: bool
  conv_buf_size :: int
  consecutive_failures :: nat
  tx_log :: "tx_call list"
  cerr :: "diag list"

record sink = bladerf_common +
  in_burst :: bool

definition bladerf_sync_tx ::
    "transport \<Rightarrow> tx_call \<Rightarrow> 'a bladerf_common_scheme \<Rightarrow> int \<times> 'a bladerf_common_scheme" where
  "bladerf_sync_tx dev c s = (dev (tx_log s) c, s\<lparr>tx_log := tx_log s @ [c]\<rparr>)"

subsection \<open>The burst engine: \<^verbatim>\<open>bladerf_sink_c::transmit_with_tags\<close>\<close>

text \<open>A stream tag, as far as the engine reads it: its absolute offset and its key.\<close>

record tag =
  offset :: nat
  key :: string

text \<open>The locals of \<^verbatim>\<open>transmit_with_tags\<close> that live across the loop over the tags.\<close>

record locals =
  start_idx :: int
  end_idx :: int
  flags :: "32 word"
  status :: int

definition zeros :: "int list" where
  "zeros = replicate 8 0"

text \<open>The outcome of one iteration: the function returns, or the loop goes on.\<close>

datatype flow = Ret int | Next locals

text \<open>
  The body of the \<^verbatim>\<open>BOOST_FOREACH\<close> loop for one tag. \<open>n\<close> is \<^verbatim>\<open>noutput_items\<close>, \<open>nread\<close> is
  \<^verbatim>\<open>nitems_read(0)\<close>.
\<close>

definition on_tag :: "transport \<Rightarrow> int \<Rightarrow> nat \<Rightarrow> tag \<Rightarrow> locals \<Rightarrow> sink \<Rightarrow> flow \<times> sink" where
  "on_tag dev n nread t l s =
     (if key t = ''tx_sob'' then
        (if in_burst s then
           (Ret BLADERF_ERR_INVAL, s\<lparr>cerr := cerr s @ [Sob_within_burst]\<rparr>)
         else
           (Next (l\<lparr>start_idx := int (offset t) - int nread,
                     flags := flags l OR
                       (BLADERF_META_FLAG_TX_NOW OR BLADERF_META_FLAG_TX_BURST_START)\<rparr>),
            s\<lparr>in_burst := True\<rparr>))
      else if key t = ''tx_eob'' then
        (if \<not> in_burst s then
           (Ret BLADERF_ERR_INVAL, s\<lparr>cerr := cerr s @ [Eob_not_in_burst]\<rparr>)
         else
           let l1 = l\<lparr>end_idx := int (offset t) - int nread\<rparr> in
           if start_idx l1 = INVALID_IDX \<or> start_idx l1 > end_idx l1 then
             (Ret BLADERF_ERR_INVAL, s)
           else
             let (st, s1) = bladerf_sync_tx dev
                   \<lparr>buf = conv_buf_at (2 * start_idx l1),
                    num_samples = end_idx l1 - start_idx l1 + 1,
                    meta = Some (flags l1),
                    timeout_ms = stream_timeout_ms s\<rparr> s
             in
             if st \<noteq> 0 then (Ret st, s1)
             else
               let f2 = (flags l1 AND
                          NOT (BLADERF_META_FLAG_TX_NOW OR BLADERF_META_FLAG_TX_BURST_START))
                        OR BLADERF_META_FLAG_TX_BURST_END;
                   (st2, s2) = bladerf_sync_tx dev
                     \<lparr>buf = local_buf zeros, num_samples = 4, meta = Some f2,
                      timeout_ms = stream_timeout_ms s1\<rparr> s1;
                   l2 = l1\<lparr>start_idx := INVALID_IDX, end_idx := n - 1, flags := 0,
                           status := st2\<rparr>;
                   s3 = s2\<lparr>in_burst := False\<rparr>
               in if st2 \<noteq> 0 then (Ret st2, s3) else (Next l2, s3))
      else (Next l, s))"

fun walk :: "transport \<Rightarrow> int \<Rightarrow> nat \<Rightarrow> tag list \<Rightarrow> locals \<Rightarrow> sink \<Rightarrow> flow \<times> sink" where
  "walk dev n nread [] l s = (Next l, s)"
| "walk dev n nread (t # ts) l s =
     (case on_tag dev n nread t l s of
        (Ret st, s') \<Rightarrow> (Ret st, s')
      | (Next l', s') \<Rightarrow> walk dev n nread ts l' s')"

text \<open>The locals as initialised before the loop.\<close>

definition init_locals :: "int \<Rightarrow> locals" where
  "init_locals n = \<lparr>start_idx = 0, end_idx = n - 1, flags = 0, status = 0\<rparr>"

text \<open>
  The whole function. \<open>tags\<close> is what \<^verbatim>\<open>get_tags_in_window(tags, 0, 0, noutput_items)\<close>
  delivered, in the order delivered.
\<close>

definition transmit_with_tags ::
    "transport \<Rightarrow> int \<Rightarrow> nat \<Rightarrow> tag list \<Rightarrow> sink \<Rightarrow> int \<times> sink" where
  "transmit_with_tags dev n nread tags s =
     (let l0 = init_locals n in
      if tags = [] \<and> in_burst s then
        bladerf_sync_tx dev
          \<lparr>buf = conv_buf_at 0, num_samples = n, meta = Some (flags l0),
           timeout_ms = stream_timeout_ms s\<rparr> s
      else
        let s0 = (if tags = [] then s\<lparr>cerr := cerr s @ [Dropping_samples n]\<rparr> else s) in
        case walk dev n nread tags l0 s0 of
          (Ret st, s1) \<Rightarrow> (st, s1)
        | (Next l, s1) \<Rightarrow>
            if in_burst s1 then
              bladerf_sync_tx dev
                \<lparr>buf = conv_buf_at (2 * start_idx l),
                 num_samples = end_idx l - start_idx l + 1,
                 meta = Some (flags l),
                 timeout_ms = stream_timeout_ms s1\<rparr> s1
            else (status l, s1))"


text \<open>A tag whose key is neither of the two the engine acts on.\<close>

definition other_key :: "tag \<Rightarrow> bool" where
  "other_key t = (key t \<noteq> ''tx_sob'' \<and> key t \<noteq> ''tx_eob'')"

subsection \<open>The sink driver: \<^verbatim>\<open>bladerf_sink_c::work\<close>\<close>

text \<open>
  What one \<^verbatim>\<open>work\<close> call receives: \<^verbatim>\<open>noutput_items\<close>, the value of \<^verbatim>\<open>nitems_read(0)\<close>, the
  tags of its window, and whether a \<^verbatim>\<open>realloc\<close> of the conversion buffer would succeed.
\<close>

record block =
  noutput_items :: int
  nitems_read :: nat
  tags :: "tag list"
  realloc_ok :: bool

text \<open>
  The first part of \<^verbatim>\<open>work\<close>, up to the assignment of \<^verbatim>\<open>ret\<close>: the conversion buffer is
  grown when the block is larger than it (a failed \<^verbatim>\<open>realloc\<close> throws), the samples are
  converted, and the block is handed to the burst engine or transmitted as it is, without
  metadata. The result is the value of \<^verbatim>\<open>ret\<close>.
\<close>

definition work_ret :: "transport \<Rightarrow> block \<Rightarrow> sink \<Rightarrow> error + (int \<times> sink)" where
  "work_ret dev b s =
     (if noutput_items b > conv_buf_size s \<and> \<not> realloc_ok b then Inl Realloc_failed
      else
        let s1 = (if noutput_items b > conv_buf_size s
                  then s\<lparr>conv_buf_size := noutput_items b\<rparr> else s)
        in Inr (if use_metadata s1 then
                  transmit_with_tags dev (noutput_items b) (nitems_read b) (tags b) s1
                else
                  bladerf_sync_tx dev
                    \<lparr>buf = conv_buf_at 0, num_samples = noutput_items b, meta = None,
                     timeout_ms = stream_timeout_ms s1\<rparr> s1))"

text \<open>
  The whole of \<^verbatim>\<open>work\<close>. \<open>max_failures\<close> stands for \<^verbatim>\<open>MAX_CONSECUTIVE_FAILURES\<close>, which is
  declared in \<^verbatim>\<open>bladerf_common.h\<close>; it is a parameter here.
\<close>

definition work :: "transport \<Rightarrow> nat \<Rightarrow> block \<Rightarrow> sink \<Rightarrow> error + (int \<times> sink)" where
  "work dev max_failures b s =
     (case work_ret dev b s of
        Inl e \<Rightarrow> Inl e
      | Inr (ret, s2) \<Rightarrow>
          Inr (if ret \<noteq> 0 then
                 let s3 = s2\<lparr>cerr := cerr s2 @ [Sync_tx_error ret],
                            consecutive_failures := consecutive_failures s2 + 1\<rparr>
                 in if consecutive_failures s3 \<ge> max_failures
                    then (WORK_DONE, s3\<lparr>cerr := cerr s3 @ [Consecutive_error_limit]\<rparr>)
                    else (noutput_items b, s3)
               else (noutput_items b, s2\<lparr>consecutive_failures := 0\<rparr>)))"

text \<open>
  A sequence of \<^verbatim>\<open>work\<close> calls on one sink, as the scheduler issues them. For each call
  the run keeps the value of \<^verbatim>\<open>ret\<close> beside the value the call returned; an exception ends
  the run.
\<close>

definition work_observed ::
    "transport \<Rightarrow> nat \<Rightarrow> block \<Rightarrow> sink \<Rightarrow> error + ((int \<times> int) \<times> sink)" where
  "work_observed dev max_failures b s =
     (case work_ret dev b s of
        Inl e \<Rightarrow> Inl e
      | Inr (ret, _) \<Rightarrow>
          (case work dev max_failures b s of
             Inl e \<Rightarrow> Inl e
           | Inr (r, s') \<Rightarrow> Inr ((ret, r), s')))"

fun work_calls ::
    "transport \<Rightarrow> nat \<Rightarrow> block list \<Rightarrow> sink \<Rightarrow> error + ((int \<times> int) list \<times> sink)" where
  "work_calls dev max_failures [] s = Inr ([], s)"
| "work_calls dev max_failures (b # bs) s =
     (case work_observed dev max_failures b s of
        Inl e \<Rightarrow> Inl e
      | Inr (r, s') \<Rightarrow>
          (case work_calls dev max_failures bs s' of
             Inl e \<Rightarrow> Inl e
           | Inr (rs, s'') \<Rightarrow> Inr (r # rs, s'')))"

text \<open>The number of failing calls at the end of a sequence of statuses.\<close>

definition trailing_failures :: "int list \<Rightarrow> nat" where
  "trailing_failures rets = length (takeWhile (\<lambda>r. r \<noteq> 0) (rev rets))"

text \<open>
  The burst engine on a sequence of blocks, as successive \<^verbatim>\<open>work\<close> calls invoke it: the
  statuses it returned, and the sink after the last block.
\<close>

fun transmit_blocks :: "transport \<Rightarrow> block list \<Rightarrow> sink \<Rightarrow> int list \<times> sink" where
  "transmit_blocks dev [] s = ([], s)"
| "transmit_blocks dev (b # bs) s =
     (let (st, s') = transmit_with_tags dev (noutput_items b) (nitems_read b) (tags b) s;
          (sts, s'') = transmit_blocks dev bs s'
      in (st # sts, s''))"

subsection \<open>Starting the stream: \<^verbatim>\<open>bladerf_sink_c::start\<close>\<close>

datatype bladerf_format = BLADERF_FORMAT_SC16_Q11 | BLADERF_FORMAT_SC16_Q11_META

text \<open>
  \<^verbatim>\<open>bladerf_common::start\<close> for the transmit module. The two library calls are parameters:
  \<open>sync_config\<close> is \<^verbatim>\<open>bladerf_sync_config\<close> as a function of the format, the three buffer
  settings and the timeout; \<open>enable_module\<close> is \<^verbatim>\<open>bladerf_enable_module\<close> as a function of
  its flag.
\<close>

definition bladerf_common_start ::
    "(bladerf_format \<Rightarrow> nat \<Rightarrow> nat \<Rightarrow> nat \<Rightarrow> nat \<Rightarrow> int) \<Rightarrow> (bool \<Rightarrow> int) \<Rightarrow>
     'a bladerf_common_scheme \<Rightarrow> bool \<times> 'a bladerf_common_scheme" where
  "bladerf_common_start sync_config enable_module c =
     (let format = (if use_metadata c then BLADERF_FORMAT_SC16_Q11_META
                    else BLADERF_FORMAT_SC16_Q11);
          ret = sync_config format (num_buffers c) (samples_per_buffer c) (num_transfers c)
                  (stream_timeout_ms c)
      in if ret \<noteq> 0 then (False, c\<lparr>cerr := cerr c @ [Sync_config_failed ret]\<rparr>)
         else
           let ret2 = enable_module True
           in if ret2 \<noteq> 0 then (False, c\<lparr>cerr := cerr c @ [Enable_module_failed ret2]\<rparr>)
              else (True, c))"

definition start ::
    "(bladerf_format \<Rightarrow> nat \<Rightarrow> nat \<Rightarrow> nat \<Rightarrow> nat \<Rightarrow> int) \<Rightarrow> (bool \<Rightarrow> int) \<Rightarrow>
     sink \<Rightarrow> bool \<times> sink" where
  "start sync_config enable_module s =
     bladerf_common_start sync_config enable_module (s\<lparr>in_burst := False\<rparr>)"

subsection \<open>The buffer policy of \<^verbatim>\<open>bladerf_common::init\<close>\<close>

definition NUM_BUFFERS :: nat where
  "NUM_BUFFERS = 32"

definition NUM_SAMPLES_PER_BUFFER :: nat where
  "NUM_SAMPLES_PER_BUFFER = 4 * 1024"

text \<open>
  \<^verbatim>\<open>dict_t\<close> maps argument names to their texts. Reading an optional numeric argument: the
  member keeps the value given before the lookup when the key is absent, and takes the
  result of \<^verbatim>\<open>boost::lexical_cast\<close> otherwise. The cast is a parameter; \<open>None\<close> is a text it
  rejects, for which it throws.
\<close>

type_synonym dict_t = "string \<rightharpoonup> string"

definition dict_value ::
    "(string \<Rightarrow> nat option) \<Rightarrow> dict_t \<Rightarrow> string \<Rightarrow> nat \<Rightarrow> error + nat" where
  "dict_value cast dict k dflt =
     (case dict k of
        None \<Rightarrow> Inr dflt
      | Some v \<Rightarrow> (case cast v of None \<Rightarrow> Inl Bad_lexical_cast | Some x \<Rightarrow> Inr x))"

text \<open>
  The part of \<^verbatim>\<open>init\<close> headed ``Initialize buffer and sample configuration'', up to the
  clamping of the transfers. Its three checks, in the order of the source, are functions of
  their own: the buffer count, the samples per buffer, the transfer count.
\<close>

definition check_num_buffers :: "'a bladerf_common_scheme \<Rightarrow> 'a bladerf_common_scheme" where
  "check_num_buffers c =
     (if num_buffers c \<le> 1 then c\<lparr>num_buffers := NUM_BUFFERS\<rparr> else c)"

definition check_samples_per_buffer ::
    "'a bladerf_common_scheme \<Rightarrow> 'a bladerf_common_scheme" where
  "check_samples_per_buffer c =
     (if samples_per_buffer c = 0 then c\<lparr>samples_per_buffer := NUM_SAMPLES_PER_BUFFER\<rparr>
      else if samples_per_buffer c < 1024 \<or> samples_per_buffer c mod 1024 \<noteq> 0 then
        (if samples_per_buffer c \<noteq> 0 then c\<lparr>cerr := cerr c @ [Invalid_buflen]\<rparr> else c)
          \<lparr>samples_per_buffer := NUM_SAMPLES_PER_BUFFER\<rparr>
      else c)"

definition check_num_transfers :: "'a bladerf_common_scheme \<Rightarrow> 'a bladerf_common_scheme" where
  "check_num_transfers c =
     (if num_transfers c = 0 then
        (let c' = c\<lparr>num_transfers := num_buffers c div 2\<rparr>
         in if num_transfers c' > 32 then c'\<lparr>num_transfers := 32\<rparr> else c')
      else if num_transfers c \<ge> num_buffers c then
        (let c' = c\<lparr>num_transfers := num_buffers c - 1\<rparr>
         in c'\<lparr>cerr := cerr c' @ [Clamping_num_transfers (num_transfers c')]\<rparr>)
      else c)"

text \<open>
  \<open>cast_size_t\<close> is \<^verbatim>\<open>lexical_cast<size_t>\<close> and \<open>cast_uint\<close> is
  \<^verbatim>\<open>lexical_cast<unsigned int>\<close>.
\<close>

definition init ::
    "(string \<Rightarrow> nat option) \<Rightarrow> (string \<Rightarrow> nat option) \<Rightarrow> dict_t \<Rightarrow>
     'a bladerf_common_scheme \<Rightarrow> error + 'a bladerf_common_scheme" where
  "init cast_size_t cast_uint dict c =
     (case dict_value cast_size_t dict ''buffers'' 0 of
        Inl e \<Rightarrow> Inl e
      | Inr nb \<Rightarrow>
     (case dict_value cast_size_t dict ''buflen'' 0 of
        Inl e \<Rightarrow> Inl e
      | Inr spb \<Rightarrow>
     (case dict_value cast_size_t dict ''transfers'' 0 of
        Inl e \<Rightarrow> Inl e
      | Inr nt \<Rightarrow>
     (case dict_value cast_uint dict ''stream_timeout_ms'' 3000 of
        Inl e \<Rightarrow> Inl e
      | Inr tmo \<Rightarrow>
          Inr (check_num_transfers (check_samples_per_buffer (check_num_buffers
            (c\<lparr>num_buffers := nb, samples_per_buffer := spb, num_transfers := nt,
               stream_timeout_ms := tmo,
               use_metadata := (dict ''enable_metadata'' \<noteq> None)\<rparr>))))))))"

text \<open>
  The value supplied for an argument, for stating properties of \<open>init\<close>: \<open>None\<close> when the
  key is absent.
\<close>

definition supplied :: "(string \<Rightarrow> nat option) \<Rightarrow> dict_t \<Rightarrow> string \<Rightarrow> nat option" where
  "supplied cast dict k = (case dict k of None \<Rightarrow> None | Some v \<Rightarrow> cast v)"

subsection \<open>The device registry: \<^verbatim>\<open>bladerf_common::open\<close> and \<^verbatim>\<open>bladerf_common::close\<close>\<close>









subsection \<open>Concrete inputs\<close>

text \<open>A transport on which every call succeeds, a sink as constructed, and burst tags.\<close>

definition good_device :: transport where
  "good_device = (\<lambda>h c. 0)"

definition idle_sink :: sink where
  "idle_sink =
     \<lparr>num_buffers = 32, samples_per_buffer = 4096, num_transfers = 16,
      stream_timeout_ms = 3000, use_metadata = True, conv_buf_size = 4096,
      consecutive_failures = 0, tx_log = [], cerr = [], in_burst = False\<rparr>"

definition sob_at :: "nat \<Rightarrow> tag" where
  "sob_at k = \<lparr>offset = k, key = ''tx_sob''\<rparr>"

definition eob_at :: "nat \<Rightarrow> tag" where
  "eob_at k = \<lparr>offset = k, key = ''tx_eob''\<rparr>"

text \<open>
  A transport on which every call fails, a sink that streams without metadata, and a block
  of 100 samples without tags.
\<close>

definition bad_device :: transport where
  "bad_device = (\<lambda>h c. - 1)"

definition plain_sink :: sink where
  "plain_sink = idle_sink\<lparr>use_metadata := False\<rparr>"

definition untagged_block :: block where
  "untagged_block = \<lparr>noutput_items = 100, nitems_read = 0, tags = [], realloc_ok = True\<rparr>"

text \<open>
  A cast that reads unsigned decimal numerals, and the members of a \<^verbatim>\<open>bladerf_common\<close>
  before \<open>init\<close> has run.
\<close>

definition digit :: "char \<Rightarrow> nat option" where
  "digit ch = map_of
     [(CHR ''0'', 0), (CHR ''1'', 1), (CHR ''2'', 2), (CHR ''3'', 3), (CHR ''4'', 4),
      (CHR ''5'', 5), (CHR ''6'', 6), (CHR ''7'', 7), (CHR ''8'', 8), (CHR ''9'', 9)] ch"

fun decimal_from :: "nat \<Rightarrow> string \<Rightarrow> nat option" where
  "decimal_from acc [] = Some acc"
| "decimal_from acc (ch # cs) =
     (case digit ch of None \<Rightarrow> None | Some d \<Rightarrow> decimal_from (10 * acc + d) cs)"

definition decimal :: "string \<Rightarrow> nat option" where
  "decimal v = (if v = [] then None else decimal_from 0 v)"

definition fresh_common :: bladerf_common where
  "fresh_common =
     \<lparr>num_buffers = 0, samples_per_buffer = 0, num_transfers = 0, stream_timeout_ms = 0,
      use_metadata = False, conv_buf_size = 4096, consecutive_failures = 0, tx_log = [],
      cerr = []\<rparr>"



section \<open>Properties\<close>

subsection \<open>Blocks without tags\<close>

text \<open>
  Claim C2. When the tag list of a call is empty: in a burst, the whole block of
  \<open>noutput_items\<close> samples goes out in a single transmit call whose metadata flags are all
  zero, and the status of that call is what the engine returns; outside a burst no
  transmit call is issued, the dropped-samples diagnostic is written, and the state stays
  idle.
\<close>

theorem no_tags_block:
  "transmit_with_tags dev n nread [] s =
     (if in_burst s then
        (dev (tx_log s)
           \<lparr>buf = conv_buf_at 0, num_samples = n, meta = Some 0,
            timeout_ms = stream_timeout_ms s\<rparr>,
         s\<lparr>tx_log := tx_log s @
              [\<lparr>buf = conv_buf_at 0, num_samples = n, meta = Some 0,
                timeout_ms = stream_timeout_ms s\<rparr>]\<rparr>)
      else (0, s\<lparr>cerr := cerr s @ [Dropping_samples n]\<rparr>))"
  by (simp add: transmit_with_tags_def init_locals_def bladerf_sync_tx_def)

subsection \<open>The loop over the tags\<close>

lemma walk_append:
  "walk dev n nread (pre @ ts) l s =
     (case walk dev n nread pre l s of
        (Ret st, s') \<Rightarrow> (Ret st, s')
      | (Next l', s') \<Rightarrow> walk dev n nread ts l' s')"
  by (induction pre arbitrary: l s) (auto split: prod.splits flow.splits)

lemma walk_snoc_Ret:
  assumes "walk dev n nread pre l s = (Next l1, s1)"
    and "on_tag dev n nread t l1 s1 = (Ret st, s')"
  shows "walk dev n nread (pre @ t # rest) l s = (Ret st, s')"
  using assms by (simp add: walk_append)

text \<open>A return inside the loop is the return of the function.\<close>

lemma transmit_with_tags_Ret:
  assumes "walk dev n nread pre (init_locals n) s = (Next l1, s1)"
    and "on_tag dev n nread t l1 s1 = (Ret st, s')"
  shows "transmit_with_tags dev n nread (pre @ t # rest) s = (st, s')"
  using walk_snoc_Ret [OF assms] by (simp add: transmit_with_tags_def)

lemma on_tag_sob_in_burst:
  "key t = ''tx_sob'' \<Longrightarrow> in_burst s \<Longrightarrow>
   on_tag dev n nread t l s =
     (Ret BLADERF_ERR_INVAL, s\<lparr>cerr := cerr s @ [Sob_within_burst]\<rparr>)"
  by (simp add: on_tag_def)

lemma on_tag_eob_idle:
  "key t = ''tx_eob'' \<Longrightarrow> \<not> in_burst s \<Longrightarrow>
   on_tag dev n nread t l s =
     (Ret BLADERF_ERR_INVAL, s\<lparr>cerr := cerr s @ [Eob_not_in_burst]\<rparr>)"
  by (simp add: on_tag_def)

lemma on_tag_eob_inverted:
  "key t = ''tx_eob'' \<Longrightarrow> in_burst s \<Longrightarrow> start_idx l > int (offset t) - int nread \<Longrightarrow>
   on_tag dev n nread t l s = (Ret BLADERF_ERR_INVAL, s)"
  by (simp add: on_tag_def Let_def)

lemma on_tag_eob_valid:
  assumes "key t = ''tx_eob''" and "in_burst s"
    and "start_idx l \<noteq> INVALID_IDX" and "start_idx l \<le> int (offset t) - int nread"
  shows "on_tag dev n nread t l s =
     (let data = \<lparr>buf = conv_buf_at (2 * start_idx l),
                  num_samples = int (offset t) - int nread - start_idx l + 1,
                  meta = Some (flags l), timeout_ms = stream_timeout_ms s\<rparr>;
          trailer = \<lparr>buf = local_buf zeros, num_samples = 4,
                     meta = Some ((flags l AND
                          NOT (BLADERF_META_FLAG_TX_NOW OR BLADERF_META_FLAG_TX_BURST_START))
                        OR BLADERF_META_FLAG_TX_BURST_END),
                     timeout_ms = stream_timeout_ms s\<rparr>;
          st = dev (tx_log s) data;
          st2 = dev (tx_log s @ [data]) trailer
      in if st \<noteq> 0 then (Ret st, s\<lparr>tx_log := tx_log s @ [data]\<rparr>)
         else (if st2 \<noteq> 0 then Ret st2
               else Next \<lparr>start_idx = INVALID_IDX, end_idx = n - 1, flags = 0, status = 0\<rparr>,
               s\<lparr>tx_log := tx_log s @ [data, trailer], in_burst := False\<rparr>))"
  using assms
  by (simp add: on_tag_def Let_def bladerf_sync_tx_def)

lemma zeros_list: "zeros = [0, 0, 0, 0, 0, 0, 0, 0]"
  by (simp add: zeros_def numeral_eq_Suc)

text \<open>The ways an iteration can fall through to the next tag.\<close>

lemma on_tag_Next_cases:
  assumes "on_tag dev n nread t l s = (Next l', s')"
  shows "(key t = ''tx_sob'' \<and> \<not> in_burst s \<and> in_burst s' \<and>
            l' = l\<lparr>start_idx := int (offset t) - int nread,
                   flags := flags l OR
                     (BLADERF_META_FLAG_TX_NOW OR BLADERF_META_FLAG_TX_BURST_START)\<rparr>)
       \<or> (key t \<noteq> ''tx_sob'' \<and> key t = ''tx_eob'' \<and> in_burst s \<and> \<not> in_burst s' \<and>
            flags l' = 0)
       \<or> (key t \<noteq> ''tx_sob'' \<and> key t \<noteq> ''tx_eob'' \<and> l' = l \<and> s' = s)"
  using assms
  by (auto simp: on_tag_def Let_def bladerf_sync_tx_def split: if_splits prod.splits)

text \<open>
  What the locals hold while the loop runs. Outside a burst no flag is pending. Inside a
  burst, either a start tag was seen in this call, and then the start flags are pending and
  the segment starts at the last start tag; or none was, and then the burst was open on
  entry and flags and segment start are as initialised.
\<close>

lemma walk_pending:
  assumes "walk dev n nread pre l s = (Next l1, s1)"
    and "\<not> in_burst s \<longrightarrow> flags l = 0"
  shows "(\<not> in_burst s1 \<longrightarrow> flags l1 = 0) \<and>
         (in_burst s1 \<longrightarrow>
            (if \<exists>t\<in>set pre. key t = ''tx_sob''
             then flags l1 =
                    (BLADERF_META_FLAG_TX_NOW OR BLADERF_META_FLAG_TX_BURST_START) \<and>
                  start_idx l1 =
                    int (offset (last (filter (\<lambda>t. key t = ''tx_sob'') pre))) - int nread
             else in_burst s \<and> flags l1 = flags l \<and> start_idx l1 = start_idx l))"
  using assms
proof (induction pre arbitrary: l s)
  case Nil
  then show ?case by simp
next
  case (Cons t ts)
  from Cons.prems(1) obtain l' s' where
    step: "on_tag dev n nread t l s = (Next l', s')" and
    rest: "walk dev n nread ts l' s' = (Next l1, s1)"
    by (auto split: prod.splits flow.splits)
  from on_tag_Next_cases [OF step] Cons.prems(2)
  have inv': "\<not> in_burst s' \<longrightarrow> flags l' = 0" by auto
  note IH = Cons.IH [OF rest inv']
  from on_tag_Next_cases [OF step] show ?case
  proof (elim disjE conjE)
    assume a: "key t = ''tx_sob''" "\<not> in_burst s" "in_burst s'"
      "l' = l\<lparr>start_idx := int (offset t) - int nread,
              flags := flags l OR
                (BLADERF_META_FLAG_TX_NOW OR BLADERF_META_FLAG_TX_BURST_START)\<rparr>"
    with Cons.prems(2) have "flags l = 0" by simp
    with a IH show ?thesis
      by (cases "\<exists>t\<in>set ts. key t = ''tx_sob''") (auto simp: filter_empty_conv)
  next
    assume "key t \<noteq> ''tx_sob''" "key t = ''tx_eob''" "in_burst s" "\<not> in_burst s'"
      "flags l' = 0"
    with IH show ?thesis
      by (cases "\<exists>t\<in>set ts. key t = ''tx_sob''") (auto simp: filter_empty_conv)
  next
    assume "key t \<noteq> ''tx_sob''" "key t \<noteq> ''tx_eob''" "l' = l" "s' = s"
    with IH show ?thesis
      by (cases "\<exists>t\<in>set ts. key t = ''tx_sob''") (auto simp: filter_empty_conv)
  qed
qed


subsection \<open>Closing a burst\<close>



subsection \<open>Protocol errors\<close>

text \<open>
  Claim C3. Let a call have walked the tags \<open>pre\<close> without returning. If the next tag is a
  start-of-burst tag while the sink is in a burst, or an end-of-burst tag while it is not,
  or an end-of-burst tag in a burst whose offset in the block is below the recorded segment
  start, then the iteration returns \<^verbatim>\<open>BLADERF_ERR_INVAL\<close> and issues no transmit call; the
  function returns that code, and its transmit calls are those issued for \<open>pre\<close>, whatever
  tags follow.
\<close>

theorem protocol_error:
  assumes pre: "walk dev n nread pre (init_locals n) s = (Next l1, s1)"
    and bad: "key t = ''tx_sob'' \<and> in_burst s1 \<or>
              key t = ''tx_eob'' \<and> \<not> in_burst s1 \<or>
              key t = ''tx_eob'' \<and> in_burst s1 \<and> int (offset t) - int nread < start_idx l1"
  shows "fst (on_tag dev n nread t l1 s1) = Ret BLADERF_ERR_INVAL \<and>
         tx_log (snd (on_tag dev n nread t l1 s1)) = tx_log s1 \<and>
         fst (transmit_with_tags dev n nread (pre @ t # rest) s) = BLADERF_ERR_INVAL \<and>
         tx_log (snd (transmit_with_tags dev n nread (pre @ t # rest) s)) = tx_log s1"
proof -
  from bad obtain s' where step: "on_tag dev n nread t l1 s1 = (Ret BLADERF_ERR_INVAL, s')"
    and log: "tx_log s' = tx_log s1"
    by (auto simp: on_tag_sob_in_burst on_tag_eob_idle on_tag_eob_inverted)
  from transmit_with_tags_Ret [OF pre step] step log show ?thesis by simp
qed

theorem protocol_error_witness:
  "walk good_device 100 0 [sob_at 10] (init_locals 100) idle_sink =
     (Next \<lparr>start_idx = 10, end_idx = 99, flags = 5, status = 0\<rparr>,
      idle_sink\<lparr>in_burst := True\<rparr>) \<and>
   key (sob_at 20) = ''tx_sob'' \<and> in_burst (idle_sink\<lparr>in_burst := True\<rparr>) \<and>
   fst (transmit_with_tags good_device 100 0 ([sob_at 10] @ sob_at 20 # [eob_at 60])
          idle_sink) = BLADERF_ERR_INVAL \<and>
   tx_log (snd (transmit_with_tags good_device 100 0 ([sob_at 10] @ sob_at 20 # [eob_at 60])
          idle_sink)) = []"
proof -
  have h1: "walk good_device 100 0 [sob_at 10] (init_locals 100) idle_sink =
     (Next \<lparr>start_idx = 10, end_idx = 99, flags = 5, status = 0\<rparr>,
      idle_sink\<lparr>in_burst := True\<rparr>)"
    by (simp add: on_tag_def init_locals_def idle_sink_def sob_at_def
        BLADERF_META_FLAG_TX_NOW_def BLADERF_META_FLAG_TX_BURST_START_def)
  have h2: "key (sob_at 20) = ''tx_sob'' \<and> in_burst (idle_sink\<lparr>in_burst := True\<rparr>) \<or>
      key (sob_at 20) = ''tx_eob'' \<and> \<not> in_burst (idle_sink\<lparr>in_burst := True\<rparr>) \<or>
      key (sob_at 20) = ''tx_eob'' \<and> in_burst (idle_sink\<lparr>in_burst := True\<rparr>) \<and>
      int (offset (sob_at 20)) - int 0
        < start_idx \<lparr>start_idx = 10, end_idx = 99, flags = 5, status = 0\<rparr>"
    by (simp add: sob_at_def)
  from protocol_error [OF h1 h2, of "[eob_at 60]"] h1 show ?thesis
    by (simp add: sob_at_def idle_sink_def)
qed

text \<open>
  Claim C9. When the function returns \<^verbatim>\<open>BLADERF_ERR_INVAL\<close> for a start-of-burst tag met
  in a burst, or for an end-of-burst tag met outside one, the sink is left in the burst
  state it had when that tag was examined.
\<close>

theorem protocol_error_keeps_burst_state:
  assumes pre: "walk dev n nread pre (init_locals n) s = (Next l1, s1)"
    and bad: "key t = ''tx_sob'' \<and> in_burst s1 \<or> key t = ''tx_eob'' \<and> \<not> in_burst s1"
  shows "fst (transmit_with_tags dev n nread (pre @ t # rest) s) = BLADERF_ERR_INVAL \<and>
         in_burst (snd (transmit_with_tags dev n nread (pre @ t # rest) s)) = in_burst s1"
proof -
  from bad obtain s' where step: "on_tag dev n nread t l1 s1 = (Ret BLADERF_ERR_INVAL, s')"
    and same: "in_burst s' = in_burst s1"
    by (auto simp: on_tag_sob_in_burst on_tag_eob_idle)
  from transmit_with_tags_Ret [OF pre step] same show ?thesis by simp
qed

theorem protocol_error_keeps_burst_state_witness:
  "walk good_device 100 0 [] (init_locals 100) idle_sink = (Next (init_locals 100), idle_sink) \<and>
   key (eob_at 60) = ''tx_eob'' \<and> \<not> in_burst idle_sink \<and>
   fst (transmit_with_tags good_device 100 0 ([] @ eob_at 60 # [sob_at 70]) idle_sink)
     = BLADERF_ERR_INVAL \<and>
   in_burst (snd (transmit_with_tags good_device 100 0 ([] @ eob_at 60 # [sob_at 70])
     idle_sink)) = False"
proof -
  have h1: "walk good_device 100 0 [] (init_locals 100) idle_sink =
      (Next (init_locals 100), idle_sink)"
    by simp
  have h2: "key (eob_at 60) = ''tx_sob'' \<and> in_burst idle_sink \<or>
      key (eob_at 60) = ''tx_eob'' \<and> \<not> in_burst idle_sink"
    by (simp add: eob_at_def idle_sink_def)
  from protocol_error_keeps_burst_state [OF h1 h2, of "[sob_at 70]"] show ?thesis
    by (simp add: eob_at_def idle_sink_def)
qed

subsection \<open>Starting the stream\<close>

text \<open>
  Claim C8. After \<^verbatim>\<open>start\<close> the sink is not in a burst, whatever its burst state was before
  and whether or not configuring and enabling the stream succeeded; the settings handed to
  the stream configuration are read after the flag is cleared and are those of the sink.
\<close>

theorem start_resets_burst:
  "\<not> in_burst (snd (start sync_config enable_module s)) \<and>
   tx_log (snd (start sync_config enable_module s)) = tx_log s \<and>
   fst (start sync_config enable_module s) =
     (sync_config
        (if use_metadata s then BLADERF_FORMAT_SC16_Q11_META else BLADERF_FORMAT_SC16_Q11)
        (num_buffers s) (samples_per_buffer s) (num_transfers s) (stream_timeout_ms s) = 0
      \<and> enable_module True = 0)"
  by (simp add: start_def bladerf_common_start_def Let_def)

subsection \<open>Failure accounting in \<^verbatim>\<open>work\<close>\<close>

text \<open>The burst engine and the transport never write the failure counter.\<close>

lemma on_tag_consecutive_failures:
  "consecutive_failures (snd (on_tag dev n nread t l s)) = consecutive_failures s"
  by (simp add: on_tag_def Let_def bladerf_sync_tx_def split: prod.splits)

lemma walk_consecutive_failures:
  "consecutive_failures (snd (walk dev n nread ts l s)) = consecutive_failures s"
proof (induction ts arbitrary: l s)
  case Nil
  show ?case by simp
next
  case (Cons t ts)
  show ?case
  proof (cases "on_tag dev n nread t l s")
    case (Pair f s')
    with on_tag_consecutive_failures [of dev n nread t l s]
    have "consecutive_failures s' = consecutive_failures s" by simp
    with Pair Cons.IH show ?thesis by (cases f) simp_all
  qed
qed

lemma transmit_with_tags_consecutive_failures:
  "consecutive_failures (snd (transmit_with_tags dev n nread ts s)) = consecutive_failures s"
proof (cases "ts = []")
  case True
  then show ?thesis
    by (simp add: transmit_with_tags_def init_locals_def bladerf_sync_tx_def Let_def)
next
  case False
  obtain f s1 where w: "walk dev n nread ts (init_locals n) s = (f, s1)"
    by (cases "walk dev n nread ts (init_locals n) s")
  with walk_consecutive_failures [of dev n nread ts "init_locals n" s]
  have "consecutive_failures s1 = consecutive_failures s" by simp
  with False w show ?thesis
    by (cases f) (simp_all add: transmit_with_tags_def bladerf_sync_tx_def)
qed

lemma work_ret_consecutive_failures:
  assumes "work_ret dev b s = Inr (ret, s2)"
  shows "consecutive_failures s2 = consecutive_failures s"
proof -
  let ?s1 = "if noutput_items b > conv_buf_size s
    then s\<lparr>conv_buf_size := noutput_items b\<rparr> else s"
  have c: "consecutive_failures ?s1 = consecutive_failures s" by simp
  from assms have "s2 = snd (transmit_with_tags dev (noutput_items b) (nitems_read b)
        (tags b) ?s1) \<or>
      s2 = ?s1\<lparr>tx_log := tx_log ?s1 @
        [\<lparr>buf = conv_buf_at 0, num_samples = noutput_items b, meta = None,
          timeout_ms = stream_timeout_ms ?s1\<rparr>]\<rparr>"
    by (auto simp: work_ret_def Let_def bladerf_sync_tx_def split: if_splits)
  then show ?thesis
  proof
    assume "s2 = snd (transmit_with_tags dev (noutput_items b) (nitems_read b)
        (tags b) ?s1)"
    then show ?thesis
      using transmit_with_tags_consecutive_failures
        [of dev "noutput_items b" "nitems_read b" "tags b" ?s1] c
      by simp
  next
    assume "s2 = ?s1\<lparr>tx_log := tx_log ?s1 @
        [\<lparr>buf = conv_buf_at 0, num_samples = noutput_items b, meta = None,
          timeout_ms = stream_timeout_ms ?s1\<rparr>]\<rparr>"
    then show ?thesis by simp
  qed
qed

text \<open>One call: what it returns and what it leaves in the counter.\<close>

lemma work_step:
  assumes "work_ret dev b s = Inr (ret, s2)"
  shows "\<exists>s3. work dev m b s =
           Inr (if ret \<noteq> 0 \<and> m \<le> Suc (consecutive_failures s) then WORK_DONE
                else noutput_items b, s3) \<and>
         consecutive_failures s3 = (if ret \<noteq> 0 then Suc (consecutive_failures s) else 0)"
  using assms work_ret_consecutive_failures [OF assms]
  by (simp add: work_def Let_def)

lemma work_observed_step:
  assumes "work_observed dev m b s = Inr ((ret, r), s')"
  shows "r = (if ret \<noteq> 0 \<and> m \<le> Suc (consecutive_failures s) then WORK_DONE
              else noutput_items b) \<and>
         consecutive_failures s' = (if ret \<noteq> 0 then Suc (consecutive_failures s) else 0)"
proof -
  from assms obtain s2 where wr: "work_ret dev b s = Inr (ret, s2)"
    by (auto simp: work_observed_def split: sum.splits prod.splits)
  from work_step [OF wr, of m] assms wr show ?thesis
    by (auto simp: work_observed_def split: sum.splits prod.splits)
qed

lemma work_calls_snoc:
  "work_calls dev m (bs @ [b]) s =
     (case work_calls dev m bs s of
        Inl e \<Rightarrow> Inl e
      | Inr (rs, s') \<Rightarrow>
          (case work_observed dev m b s' of
             Inl e \<Rightarrow> Inl e
           | Inr (r, s'') \<Rightarrow> Inr (rs @ [r], s'')))"
  by (induction bs arbitrary: s) (auto split: sum.splits prod.splits)

lemma trailing_failures_snoc:
  "trailing_failures (rets @ [r]) = (if r \<noteq> 0 then Suc (trailing_failures rets) else 0)"
  by (simp add: trailing_failures_def)

lemma trailing_failures_all:
  "\<forall>r\<in>set rets. r \<noteq> 0 \<Longrightarrow> trailing_failures rets = length rets"
  by (simp add: trailing_failures_def takeWhile_eq_all_conv[THEN iffD2])

lemma trailing_failures_last:
  assumes "m \<le> trailing_failures rets"
  shows "\<forall>r\<in>set (drop (length rets - m) rets). r \<noteq> 0"
proof -
  let ?tw = "takeWhile (\<lambda>r. r \<noteq> 0) (rev rets)"
  have gen: "take k (xs @ ys) = take k xs" if "k \<le> length xs"
    for k and xs ys :: "int list"
    using that by simp
  have "take m (rev rets) = take m (?tw @ dropWhile (\<lambda>r. r \<noteq> 0) (rev rets))"
    by (simp only: takeWhile_dropWhile_id)
  also have "\<dots> = take m ?tw"
    by (rule gen) (use assms in \<open>simp add: trailing_failures_def\<close>)
  finally have "take m (rev rets) = take m ?tw" .
  then have "set (take m (rev rets)) \<subseteq> set ?tw" by (simp add: set_take_subset)
  moreover have "\<forall>r\<in>set ?tw. r \<noteq> 0" by (auto dest: set_takeWhileD)
  ultimately have "\<forall>r\<in>set (take m (rev rets)). r \<noteq> 0" by blast
  moreover have "set (drop (length rets - m) rets) = set (take m (rev rets))"
    by (simp add: take_rev)
  ultimately show ?thesis by simp
qed

lemma work_calls_counter:
  assumes "work_calls dev m bs s = Inr (rs, s')" and "consecutive_failures s = 0"
  shows "length rs = length bs \<and> consecutive_failures s' = trailing_failures (map fst rs)"
  using assms(1)
proof (induction bs arbitrary: rs s' rule: rev_induct)
  case Nil
  with assms(2) show ?case by (simp add: trailing_failures_def)
next
  case (snoc b bs)
  from snoc.prems obtain rs0 s0 ret r where
    run: "work_calls dev m bs s = Inr (rs0, s0)" and
    last: "work_observed dev m b s0 = Inr ((ret, r), s')" and
    rs: "rs = rs0 @ [(ret, r)]"
    by (auto simp: work_calls_snoc split: sum.splits prod.splits)
  from snoc.IH [OF run] work_observed_step [OF last] rs show ?case
    by (simp add: trailing_failures_snoc)
qed

text \<open>
  Claim C7. For one \<^verbatim>\<open>work\<close> call with transmit status \<open>ret\<close>: a nonzero status adds one to
  the counter, and the call returns \<^verbatim>\<open>WORK_DONE\<close> when the counter has then reached the
  threshold and the item count otherwise; a zero status sets the counter to 0 and the call
  returns the item count. For a sequence of calls that starts with the counter at 0, the
  counter after the last call is the number of failing calls at the end of the sequence,
  and the last call returns \<^verbatim>\<open>WORK_DONE\<close> exactly when it failed and that number has reached
  the threshold. So when every call of the sequence failed, the last one returns
  \<^verbatim>\<open>WORK_DONE\<close> exactly when the sequence has at least threshold many calls; and when one
  of the last threshold many calls succeeded, the last call returns the item count.
\<close>

theorem consecutive_failure_shutdown:
  "(\<forall>ret s2. work_ret dev b s = Inr (ret, s2) \<longrightarrow>
      (\<exists>s3. work dev m b s =
               Inr (if ret \<noteq> 0 \<and> m \<le> Suc (consecutive_failures s) then WORK_DONE
                    else noutput_items b, s3) \<and>
             consecutive_failures s3 =
               (if ret \<noteq> 0 then Suc (consecutive_failures s) else 0))) \<and>
   (\<forall>bs rs s'. consecutive_failures s = 0 \<longrightarrow>
      work_calls dev m (bs @ [b]) s = Inr (rs, s') \<longrightarrow>
        length rs = Suc (length bs) \<and>
        consecutive_failures s' = trailing_failures (map fst rs) \<and>
        snd (last rs) =
          (if fst (last rs) \<noteq> 0 \<and> m \<le> trailing_failures (map fst rs) then WORK_DONE
           else noutput_items b) \<and>
        ((\<forall>p\<in>set rs. fst p \<noteq> 0) \<longrightarrow>
           snd (last rs) = (if m \<le> length rs then WORK_DONE else noutput_items b)) \<and>
        ((\<exists>p\<in>set (drop (length rs - m) rs). fst p = 0) \<longrightarrow>
           snd (last rs) = noutput_items b))"
proof (intro conjI allI impI)
  fix ret s2
  assume "work_ret dev b s = Inr (ret, s2)"
  then show "\<exists>s3. work dev m b s =
               Inr (if ret \<noteq> 0 \<and> m \<le> Suc (consecutive_failures s) then WORK_DONE
                    else noutput_items b, s3) \<and>
             consecutive_failures s3 =
               (if ret \<noteq> 0 then Suc (consecutive_failures s) else 0)"
    by (rule work_step)
next
  fix bs rs s'
  assume zero: "consecutive_failures s = 0"
    and run: "work_calls dev m (bs @ [b]) s = Inr (rs, s')"
  from run obtain rs0 s0 ret r where
    run0: "work_calls dev m bs s = Inr (rs0, s0)" and
    last: "work_observed dev m b s0 = Inr ((ret, r), s')" and
    rs: "rs = rs0 @ [(ret, r)]"
    by (auto simp: work_calls_snoc split: sum.splits prod.splits)
  from work_calls_counter [OF run0 zero]
  have c0: "consecutive_failures s0 = trailing_failures (map fst rs0)"
    and len0: "length rs0 = length bs"
    by simp_all
  from work_calls_counter [OF run zero]
  have c: "consecutive_failures s' = trailing_failures (map fst rs)"
    and len: "length rs = Suc (length bs)"
    by simp_all
  have res: "snd (last rs) =
      (if fst (last rs) \<noteq> 0 \<and> m \<le> trailing_failures (map fst rs) then WORK_DONE
       else noutput_items b)"
    using work_observed_step [OF last] c0 rs by (simp add: trailing_failures_snoc)
  show "length rs = Suc (length bs)" by (rule len)
  show "consecutive_failures s' = trailing_failures (map fst rs)" by (rule c)
  show "snd (last rs) =
      (if fst (last rs) \<noteq> 0 \<and> m \<le> trailing_failures (map fst rs) then WORK_DONE
       else noutput_items b)"
    by (rule res)
  {
    assume all: "\<forall>p\<in>set rs. fst p \<noteq> 0"
    then have "trailing_failures (map fst rs) = length rs"
      using trailing_failures_all [of "map fst rs"] by simp
    moreover from all rs have "fst (last rs) \<noteq> 0" by simp
    ultimately show "snd (last rs) = (if m \<le> length rs then WORK_DONE else noutput_items b)"
      using res by simp
  }
  {
    assume ex: "\<exists>p\<in>set (drop (length rs - m) rs). fst p = 0"
    have "\<not> m \<le> trailing_failures (map fst rs)"
    proof
      assume "m \<le> trailing_failures (map fst rs)"
      from trailing_failures_last [OF this]
      have "\<forall>r\<in>set (drop (length rs - m) (map fst rs)). r \<noteq> 0" by simp
      then have "\<forall>p\<in>set (drop (length rs - m) rs). fst p \<noteq> 0"
        by (simp add: drop_map)
      with ex show False by blast
    qed
    with res show "snd (last rs) = noutput_items b" by simp
  }
qed

theorem consecutive_failure_shutdown_witness:
  "work_ret bad_device untagged_block plain_sink =
     Inr (- 1, plain_sink\<lparr>tx_log :=
       [\<lparr>buf = conv_buf_at 0, num_samples = 100, meta = None, timeout_ms = 3000\<rparr>]\<rparr>) \<and>
   (\<exists>s3. work bad_device 3 untagged_block plain_sink = Inr (100, s3) \<and>
      consecutive_failures s3 = 1) \<and>
   consecutive_failures plain_sink = 0 \<and>
   work_calls bad_device 3 ([untagged_block, untagged_block] @ [untagged_block]) plain_sink =
     Inr ([(- 1, 100), (- 1, 100), (- 1, - 1)],
       plain_sink\<lparr>consecutive_failures := 3,
         tx_log :=
           [\<lparr>buf = conv_buf_at 0, num_samples = 100, meta = None, timeout_ms = 3000\<rparr>,
            \<lparr>buf = conv_buf_at 0, num_samples = 100, meta = None, timeout_ms = 3000\<rparr>,
            \<lparr>buf = conv_buf_at 0, num_samples = 100, meta = None, timeout_ms = 3000\<rparr>],
         cerr := [Sync_tx_error (- 1), Sync_tx_error (- 1), Sync_tx_error (- 1),
           Consecutive_error_limit]\<rparr>) \<and>
   snd (last [(- 1, 100), (- 1, 100), (- 1, - 1 :: int)]) = WORK_DONE"
proof -
  have h1: "work_ret bad_device untagged_block plain_sink =
     Inr (- 1, plain_sink\<lparr>tx_log :=
       [\<lparr>buf = conv_buf_at 0, num_samples = 100, meta = None, timeout_ms = 3000\<rparr>]\<rparr>)"
    by (simp add: work_ret_def bad_device_def untagged_block_def plain_sink_def idle_sink_def
        bladerf_sync_tx_def)
  have h2: "consecutive_failures plain_sink = 0"
    by (simp add: plain_sink_def idle_sink_def)
  have h3: "work_calls bad_device 3 ([untagged_block, untagged_block] @ [untagged_block])
      plain_sink =
     Inr ([(- 1, 100), (- 1, 100), (- 1, - 1)],
       plain_sink\<lparr>consecutive_failures := 3,
         tx_log :=
           [\<lparr>buf = conv_buf_at 0, num_samples = 100, meta = None, timeout_ms = 3000\<rparr>,
            \<lparr>buf = conv_buf_at 0, num_samples = 100, meta = None, timeout_ms = 3000\<rparr>,
            \<lparr>buf = conv_buf_at 0, num_samples = 100, meta = None, timeout_ms = 3000\<rparr>],
         cerr := [Sync_tx_error (- 1), Sync_tx_error (- 1), Sync_tx_error (- 1),
           Consecutive_error_limit]\<rparr>)"
    by (simp add: work_observed_def work_def work_ret_def bad_device_def untagged_block_def
        plain_sink_def idle_sink_def bladerf_sync_tx_def WORK_DONE_def Let_def)
  have n: "noutput_items untagged_block = 100" by (simp add: untagged_block_def)
  note inst = consecutive_failure_shutdown [of bad_device untagged_block plain_sink 3]
  from inst h1 h2 n
  have a: "\<exists>s3. work bad_device 3 untagged_block plain_sink = Inr (100, s3) \<and>
      consecutive_failures s3 = 1"
    by simp
  from inst [THEN conjunct2, rule_format, OF h2 h3]
  have b: "snd (last [(- 1, 100), (- 1, 100), (- 1, - 1 :: int)]) = WORK_DONE"
    by (simp add: trailing_failures_def)
  from h1 h2 h3 a b show ?thesis by simp
qed

text \<open>
  Claim C10. A block without tags that arrives outside a burst, in metadata mode: the
  engine returns status 0 and issues no transmit call; \<^verbatim>\<open>work\<close> then sets the failure counter
  to 0, whatever it was, and returns \<^verbatim>\<open>noutput_items\<close>, so all items of the block count as
  consumed and the call adds nothing towards the shutdown threshold.
\<close>

theorem dropped_block_is_success:
  assumes "tags b = []" and "\<not> in_burst s" and "use_metadata s"
    and "noutput_items b \<le> conv_buf_size s \<or> realloc_ok b"
  shows "transmit_with_tags dev (noutput_items b) (nitems_read b) (tags b) s =
           (0, s\<lparr>cerr := cerr s @ [Dropping_samples (noutput_items b)]\<rparr>) \<and>
         work_ret dev b s =
           Inr (0, s\<lparr>conv_buf_size := max (conv_buf_size s) (noutput_items b),
                     cerr := cerr s @ [Dropping_samples (noutput_items b)]\<rparr>) \<and>
         work dev m b s =
           Inr (noutput_items b,
                s\<lparr>conv_buf_size := max (conv_buf_size s) (noutput_items b),
                  consecutive_failures := 0,
                  cerr := cerr s @ [Dropping_samples (noutput_items b)]\<rparr>)"
proof -
  have eng: "transmit_with_tags dev n nread [] s' =
      (0, s'\<lparr>cerr := cerr s' @ [Dropping_samples n]\<rparr>)"
    if "\<not> in_burst s'" for n nread and s' :: sink
    using that by (simp add: transmit_with_tags_def init_locals_def)
  have ret: "work_ret dev b s =
      Inr (0, s\<lparr>conv_buf_size := max (conv_buf_size s) (noutput_items b),
                cerr := cerr s @ [Dropping_samples (noutput_items b)]\<rparr>)"
    using assms by (auto simp: work_ret_def eng max_def)
  from assms(1,2) ret show ?thesis
    by (simp add: eng work_def)
qed

theorem dropped_block_is_success_witness:
  "tags untagged_block = [] \<and> \<not> in_burst (idle_sink\<lparr>consecutive_failures := 2\<rparr>) \<and>
   use_metadata (idle_sink\<lparr>consecutive_failures := 2\<rparr>) \<and>
   noutput_items untagged_block \<le> conv_buf_size (idle_sink\<lparr>consecutive_failures := 2\<rparr>) \<and>
   work bad_device 3 untagged_block (idle_sink\<lparr>consecutive_failures := 2\<rparr>) =
     Inr (100, idle_sink\<lparr>cerr := [Dropping_samples 100]\<rparr>)"
proof -
  have h1: "tags untagged_block = []" by (simp add: untagged_block_def)
  have h2: "\<not> in_burst (idle_sink\<lparr>consecutive_failures := 2\<rparr>)"
    by (simp add: idle_sink_def)
  have h3: "use_metadata (idle_sink\<lparr>consecutive_failures := 2\<rparr>)"
    by (simp add: idle_sink_def)
  have h4: "noutput_items untagged_block
      \<le> conv_buf_size (idle_sink\<lparr>consecutive_failures := 2\<rparr>)"
    by (simp add: idle_sink_def untagged_block_def)
  from h4 have h4': "noutput_items untagged_block
      \<le> conv_buf_size (idle_sink\<lparr>consecutive_failures := 2\<rparr>) \<or> realloc_ok untagged_block"
    by simp
  from dropped_block_is_success [OF h1 h2 h3 h4', of bad_device 3] h1 h2 h3 h4
  show ?thesis
    by (simp add: idle_sink_def untagged_block_def)
qed

subsection \<open>The buffer policy\<close>

lemma dict_value_Inr:
  assumes "dict_value cast dict k dflt = Inr x"
  shows "x = (case supplied cast dict k of None \<Rightarrow> dflt | Some y \<Rightarrow> y) \<and>
         (supplied cast dict k = None) = (dict k = None)"
  using assms
  by (auto simp: dict_value_def supplied_def split: option.splits)

text \<open>
  A supplied buffer length of 0 is not a positive multiple of 1024; \<open>init\<close> falls back to
  4096 for it and writes no warning.
\<close>

theorem buflen_zero_counterexample:
  "supplied decimal [''buflen'' \<mapsto> ''0''] ''buflen'' = Some 0 \<and>
   \<not> (0 < (0 :: nat) \<and> (0 :: nat) mod 1024 = 0) \<and>
   init decimal decimal [''buflen'' \<mapsto> ''0''] fresh_common =
     Inr (fresh_common\<lparr>num_buffers := 32, samples_per_buffer := 4096, num_transfers := 16,
            stream_timeout_ms := 3000\<rparr>) \<and>
   cerr (fresh_common\<lparr>num_buffers := 32, samples_per_buffer := 4096, num_transfers := 16,
            stream_timeout_ms := 3000\<rparr>) = []"
  by (simp add: init_def check_num_buffers_def check_samples_per_buffer_def
      check_num_transfers_def dict_value_def supplied_def decimal_def digit_def
      fresh_common_def NUM_BUFFERS_def NUM_SAMPLES_PER_BUFFER_def Let_def)

text \<open>
  Claim C6, amended. Whenever \<open>init\<close> completes: the samples per buffer are the supplied
  value when that is a positive multiple of 1024, and 4096 when the argument is absent or
  its value is not a positive multiple of 1024; the warning about the buffer length is
  written exactly when the supplied value is nonzero and not a multiple of 1024 (a
  supplied 0 is treated like an absent argument and falls back without a warning). The
  buffer count is 32 when the argument is absent or at most 1, and the supplied value
  otherwise. The transfer count is the smaller of half the buffer count and 32 when the
  argument is absent or 0; a supplied value that is at least the buffer count is replaced
  by the buffer count less one, with a warning; any other supplied value is kept. The
  timeout is 3000 when absent. The results always satisfy: at least 2 buffers, samples per
  buffer a positive multiple of 1024, and at least 1 and fewer transfers than buffers.
\<close>

theorem buffer_policy:
  assumes ok: "init cast_size_t cast_uint dict c = Inr c'"
  shows
    "samples_per_buffer c' =
       (case supplied cast_size_t dict ''buflen'' of
          None \<Rightarrow> 4096
        | Some x \<Rightarrow> if 0 < x \<and> x mod 1024 = 0 then x else 4096) \<and>
     num_buffers c' =
       (case supplied cast_size_t dict ''buffers'' of
          None \<Rightarrow> 32
        | Some x \<Rightarrow> if x \<le> 1 then 32 else x) \<and>
     num_transfers c' =
       (case supplied cast_size_t dict ''transfers'' of
          None \<Rightarrow> min (num_buffers c' div 2) 32
        | Some t \<Rightarrow> if t = 0 then min (num_buffers c' div 2) 32
                    else if num_buffers c' \<le> t then num_buffers c' - 1 else t) \<and>
     stream_timeout_ms c' =
       (case supplied cast_uint dict ''stream_timeout_ms'' of None \<Rightarrow> 3000 | Some x \<Rightarrow> x) \<and>
     cerr c' = cerr c @
       (case supplied cast_size_t dict ''buflen'' of
          None \<Rightarrow> []
        | Some x \<Rightarrow> if x \<noteq> 0 \<and> \<not> (0 < x \<and> x mod 1024 = 0) then [Invalid_buflen] else []) @
       (case supplied cast_size_t dict ''transfers'' of
          None \<Rightarrow> []
        | Some t \<Rightarrow> if num_buffers c' \<le> t
                    then [Clamping_num_transfers (num_buffers c' - 1)] else []) \<and>
     (supplied cast_size_t dict ''buflen'' = None) = (dict ''buflen'' = None) \<and>
     (supplied cast_size_t dict ''buffers'' = None) = (dict ''buffers'' = None) \<and>
     (supplied cast_size_t dict ''transfers'' = None) = (dict ''transfers'' = None) \<and>
     (supplied cast_uint dict ''stream_timeout_ms'' = None) =
       (dict ''stream_timeout_ms'' = None) \<and>
     2 \<le> num_buffers c' \<and>
     0 < samples_per_buffer c' \<and> samples_per_buffer c' mod 1024 = 0 \<and>
     1 \<le> num_transfers c' \<and> num_transfers c' < num_buffers c'"
proof -
  from ok obtain nb spb nt tmo where
    nb: "dict_value cast_size_t dict ''buffers'' 0 = Inr nb" and
    spb: "dict_value cast_size_t dict ''buflen'' 0 = Inr spb" and
    nt: "dict_value cast_size_t dict ''transfers'' 0 = Inr nt" and
    tmo: "dict_value cast_uint dict ''stream_timeout_ms'' 3000 = Inr tmo"
    by (auto simp: init_def split: sum.splits)
  define nb' where "nb' = (if nb \<le> 1 then 32 else nb)"
  define spb' where "spb' = (if 0 < spb \<and> spb mod 1024 = 0 then spb else 4096)"
  define nt' where "nt' =
    (if nt = 0 then min (nb' div 2) 32 else if nb' \<le> nt then nb' - 1 else nt)"
  have nb2: "2 \<le> nb'" by (simp add: nb'_def)
  define c1 where "c1 = check_num_buffers
      (c\<lparr>num_buffers := nb, samples_per_buffer := spb, num_transfers := nt,
         stream_timeout_ms := tmo, use_metadata := (dict ''enable_metadata'' \<noteq> None)\<rparr>)"
  define c2 where "c2 = check_samples_per_buffer c1"
  from ok have c': "c' = check_num_transfers c2"
    unfolding init_def nb spb nt tmo c2_def c1_def by simp
  have nb1: "num_buffers c1 = nb'" and spb1: "samples_per_buffer c1 = spb"
    and nt1: "num_transfers c1 = nt" and tmo1: "stream_timeout_ms c1 = tmo"
    and cerr1: "cerr c1 = cerr c"
    by (simp_all add: c1_def check_num_buffers_def nb'_def NUM_BUFFERS_def)
  have nb3: "num_buffers c2 = nb'" and spb3: "samples_per_buffer c2 = spb'"
    and nt3: "num_transfers c2 = nt" and tmo3: "stream_timeout_ms c2 = tmo"
    and cerr3: "cerr c2 = cerr c @
      (if spb \<noteq> 0 \<and> \<not> (0 < spb \<and> spb mod 1024 = 0) then [Invalid_buflen] else [])"
    by (auto simp: c2_def check_samples_per_buffer_def nb1 spb1 nt1 tmo1 cerr1 spb'_def
        NUM_SAMPLES_PER_BUFFER_def)
  have f1: "num_buffers c' = nb'" and f2: "samples_per_buffer c' = spb'"
    and f3: "num_transfers c' = nt'" and f4: "stream_timeout_ms c' = tmo"
    and f5: "cerr c' = cerr c @
         (if spb \<noteq> 0 \<and> \<not> (0 < spb \<and> spb mod 1024 = 0) then [Invalid_buflen] else []) @
         (if nt \<noteq> 0 \<and> nb' \<le> nt then [Clamping_num_transfers (nb' - 1)] else [])"
    by (auto simp: c' check_num_transfers_def Let_def nb3 spb3 nt3 tmo3 cerr3 nt'_def min_def)
  note s1 = dict_value_Inr [OF nb] and s2 = dict_value_Inr [OF spb]
    and s3 = dict_value_Inr [OF nt] and s4 = dict_value_Inr [OF tmo]
  have g1: "samples_per_buffer c' =
       (case supplied cast_size_t dict ''buflen'' of
          None \<Rightarrow> 4096
        | Some x \<Rightarrow> if 0 < x \<and> x mod 1024 = 0 then x else 4096)"
    using s2 by (auto simp: f2 spb'_def split: option.splits)
  have g2: "num_buffers c' =
       (case supplied cast_size_t dict ''buffers'' of
          None \<Rightarrow> 32
        | Some x \<Rightarrow> if x \<le> 1 then 32 else x)"
    using s1 by (auto simp: f1 nb'_def split: option.splits)
  have g3: "num_transfers c' =
       (case supplied cast_size_t dict ''transfers'' of
          None \<Rightarrow> min (num_buffers c' div 2) 32
        | Some t \<Rightarrow> if t = 0 then min (num_buffers c' div 2) 32
                    else if num_buffers c' \<le> t then num_buffers c' - 1 else t)"
    using s3 by (auto simp: f1 f3 nt'_def split: option.splits)
  have g4: "stream_timeout_ms c' =
       (case supplied cast_uint dict ''stream_timeout_ms'' of None \<Rightarrow> 3000 | Some x \<Rightarrow> x)"
    using s4 by (auto simp: f4 split: option.splits)
  have g5: "cerr c' = cerr c @
       (case supplied cast_size_t dict ''buflen'' of
          None \<Rightarrow> []
        | Some x \<Rightarrow> if x \<noteq> 0 \<and> \<not> (0 < x \<and> x mod 1024 = 0) then [Invalid_buflen] else []) @
       (case supplied cast_size_t dict ''transfers'' of
          None \<Rightarrow> []
        | Some t \<Rightarrow> if num_buffers c' \<le> t
                    then [Clamping_num_transfers (num_buffers c' - 1)] else [])"
    using s2 s3 nb2 by (auto simp: f1 f5 split: option.splits)
  have g6: "2 \<le> num_buffers c'" using nb2 by (simp add: f1)
  have g7: "0 < samples_per_buffer c'" "samples_per_buffer c' mod 1024 = 0"
    by (simp_all add: f2 spb'_def)
  have g8: "1 \<le> num_transfers c'" "num_transfers c' < num_buffers c'"
    using nb2 by (auto simp: f1 f3 nt'_def min_def)
  note u1 = s1 [THEN conjunct2] and u2 = s2 [THEN conjunct2]
    and u3 = s3 [THEN conjunct2] and u4 = s4 [THEN conjunct2]
  show ?thesis
    by (intro conjI; fact g1 g2 g3 g4 g5 g6 g7 g8 u1 u2 u3 u4)
qed

theorem buffer_policy_witness:
  "init decimal decimal
     [''buflen'' \<mapsto> ''1500'', ''buffers'' \<mapsto> ''8'', ''transfers'' \<mapsto> ''40''] fresh_common =
     Inr (fresh_common\<lparr>num_buffers := 8, samples_per_buffer := 4096, num_transfers := 7,
            stream_timeout_ms := 3000,
            cerr := [Invalid_buflen, Clamping_num_transfers 7]\<rparr>) \<and>
   supplied decimal
     [''buflen'' \<mapsto> ''1500'', ''buffers'' \<mapsto> ''8'', ''transfers'' \<mapsto> ''40''] ''buflen'' =
     Some 1500 \<and>
   (2 :: nat) \<le> 8 \<and> (0 :: nat) < 4096 \<and> (4096 :: nat) mod 1024 = 0 \<and>
   (1 :: nat) \<le> 7 \<and> (7 :: nat) < 8"
proof -
  have h: "init decimal decimal
     [''buflen'' \<mapsto> ''1500'', ''buffers'' \<mapsto> ''8'', ''transfers'' \<mapsto> ''40''] fresh_common =
     Inr (fresh_common\<lparr>num_buffers := 8, samples_per_buffer := 4096, num_transfers := 7,
            stream_timeout_ms := 3000,
            cerr := [Invalid_buflen, Clamping_num_transfers 7]\<rparr>)"
    by (simp add: init_def check_num_buffers_def check_samples_per_buffer_def
        check_num_transfers_def dict_value_def decimal_def digit_def fresh_common_def
        NUM_BUFFERS_def NUM_SAMPLES_PER_BUFFER_def Let_def)
  have s: "supplied decimal
     [''buflen'' \<mapsto> ''1500'', ''buffers'' \<mapsto> ''8'', ''transfers'' \<mapsto> ''40''] ''buflen'' =
     Some 1500"
    by (simp add: supplied_def decimal_def digit_def)
  from buffer_policy [OF h] h s show ?thesis by simp
qed

subsection \<open>The transmit calls of a burst\<close>

text \<open>
  A burst that is opened at offset 10 of one block of 100 samples and closed at offset 60
  of the next block: the engine issues two data calls, one in each call, before the
  trailer.
\<close>

theorem burst_across_blocks_counterexample:
  "transmit_with_tags good_device 100 0 [sob_at 10] idle_sink =
     (0, idle_sink\<lparr>tx_log :=
        [\<lparr>buf = conv_buf_at 20, num_samples = 90, meta = Some 5, timeout_ms = 3000\<rparr>],
        in_burst := True\<rparr>) \<and>
   transmit_with_tags good_device 100 100 [eob_at 160]
     (idle_sink\<lparr>tx_log :=
        [\<lparr>buf = conv_buf_at 20, num_samples = 90, meta = Some 5, timeout_ms = 3000\<rparr>],
        in_burst := True\<rparr>) =
     (0, idle_sink\<lparr>tx_log :=
        [\<lparr>buf = conv_buf_at 20, num_samples = 90, meta = Some 5, timeout_ms = 3000\<rparr>,
         \<lparr>buf = conv_buf_at 0, num_samples = 61, meta = Some 0, timeout_ms = 3000\<rparr>,
         \<lparr>buf = local_buf [0, 0, 0, 0, 0, 0, 0, 0], num_samples = 4, meta = Some 2,
          timeout_ms = 3000\<rparr>]\<rparr>) \<and>
   length (filter (\<lambda>c. buf c \<noteq> local_buf zeros)
     [\<lparr>buf = conv_buf_at 20, num_samples = 90, meta = Some 5, timeout_ms = 3000\<rparr>,
      \<lparr>buf = conv_buf_at 0, num_samples = 61, meta = Some 0, timeout_ms = 3000\<rparr>,
      \<lparr>buf = local_buf [0, 0, 0, 0, 0, 0, 0, 0], num_samples = 4, meta = Some 2,
       timeout_ms = 3000\<rparr>]) = 2"
  by (simp add: transmit_with_tags_def on_tag_def init_locals_def bladerf_sync_tx_def
      good_device_def idle_sink_def sob_at_def eob_at_def zeros_list
      BLADERF_META_FLAG_TX_NOW_def BLADERF_META_FLAG_TX_BURST_START_def
      BLADERF_META_FLAG_TX_BURST_END_def INVALID_IDX_def Let_def)

text \<open>Tags with other keys leave the locals and the sink as they are.\<close>

lemma on_tag_other:
  "other_key t \<Longrightarrow> on_tag dev n nread t l s = (Next l, s)"
  by (simp add: on_tag_def other_key_def)

lemma walk_other:
  "list_all other_key ts \<Longrightarrow> walk dev n nread ts l s = (Next l, s)"
  by (induction ts) (simp_all add: on_tag_other)

lemma on_tag_sob_idle:
  "key t = ''tx_sob'' \<Longrightarrow> \<not> in_burst s \<Longrightarrow>
   on_tag dev n nread t l s =
     (Next (l\<lparr>start_idx := int (offset t) - int nread,
               flags := flags l OR
                 (BLADERF_META_FLAG_TX_NOW OR BLADERF_META_FLAG_TX_BURST_START)\<rparr>),
      s\<lparr>in_burst := True\<rparr>)"
  by (simp add: on_tag_def)

text \<open>Between two tags the segment end is the last sample of the block.\<close>

lemma on_tag_end_idx:
  assumes "on_tag dev n nread t l s = (Next l', s')" and "end_idx l = n - 1"
  shows "end_idx l' = n - 1"
  using assms
  by (auto simp: on_tag_def Let_def bladerf_sync_tx_def split: if_splits prod.splits)

lemma walk_end_idx:
  assumes "walk dev n nread pre l s = (Next l1, s1)" and "end_idx l = n - 1"
  shows "end_idx l1 = n - 1"
  using assms
proof (induction pre arbitrary: l s)
  case Nil
  then show ?case by simp
next
  case (Cons t ts)
  from Cons.prems(1) obtain l' s' where
    step: "on_tag dev n nread t l s = (Next l', s')" and
    rest: "walk dev n nread ts l' s' = (Next l1, s1)"
    by (auto split: prod.splits flow.splits)
  from Cons.IH [OF rest on_tag_end_idx [OF step Cons.prems(2)]] show ?case .
qed

text \<open>With at least one tag, the function is the loop and what follows it.\<close>

lemma transmit_with_tags_walk:
  "ts \<noteq> [] \<Longrightarrow>
   transmit_with_tags dev n nread ts s =
     (case walk dev n nread ts (init_locals n) s of
        (Ret st, s1) \<Rightarrow> (st, s1)
      | (Next l, s1) \<Rightarrow>
          if in_burst s1 then
            bladerf_sync_tx dev
              \<lparr>buf = conv_buf_at (2 * start_idx l),
               num_samples = end_idx l - start_idx l + 1,
               meta = Some (flags l),
               timeout_ms = stream_timeout_ms s1\<rparr> s1
          else (status l, s1))"
  by (simp add: transmit_with_tags_def Let_def)

text \<open>
  A start tag met outside a burst and its end tag later in the same call, with tags of
  other keys in between.
\<close>

lemma walk_burst:
  assumes good: "\<forall>h c. dev h c = 0"
    and pre: "walk dev n nread pre (init_locals n) s = (Next l1, s1)"
    and idle: "\<not> in_burst s1"
    and sob: "key t1 = ''tx_sob''" and eob: "key t2 = ''tx_eob''"
    and mid: "list_all other_key mid"
    and win: "nread \<le> offset t1" and ord: "offset t1 \<le> offset t2"
  shows "walk dev n nread (pre @ t1 # mid @ t2 # rest) (init_locals n) s =
     walk dev n nread rest
       \<lparr>start_idx = INVALID_IDX, end_idx = n - 1, flags = 0, status = 0\<rparr>
       (s1\<lparr>tx_log := tx_log s1 @
          [\<lparr>buf = conv_buf_at (2 * (int (offset t1) - int nread)),
            num_samples = int (offset t2) - int (offset t1) + 1,
            meta = Some (BLADERF_META_FLAG_TX_NOW OR BLADERF_META_FLAG_TX_BURST_START),
            timeout_ms = stream_timeout_ms s1\<rparr>,
           \<lparr>buf = local_buf [0, 0, 0, 0, 0, 0, 0, 0], num_samples = 4,
            meta = Some BLADERF_META_FLAG_TX_BURST_END,
            timeout_ms = stream_timeout_ms s1\<rparr>],
        in_burst := False\<rparr>)"
proof -
  have "\<not> in_burst s \<longrightarrow> flags (init_locals n) = 0" by (simp add: init_locals_def)
  from walk_pending [OF pre this] idle have fl: "flags l1 = 0" by simp
  let ?l2 = "l1\<lparr>start_idx := int (offset t1) - int nread,
      flags := BLADERF_META_FLAG_TX_NOW OR BLADERF_META_FLAG_TX_BURST_START\<rparr>"
  let ?s2 = "s1\<lparr>in_burst := True\<rparr>"
  have step1: "on_tag dev n nread t1 l1 s1 = (Next ?l2, ?s2)"
    using on_tag_sob_idle [OF sob idle, of dev n nread l1] fl by simp
  have ne: "start_idx ?l2 \<noteq> INVALID_IDX" using win by (simp add: INVALID_IDX_def)
  have le: "start_idx ?l2 \<le> int (offset t2) - int nread" using ord by simp
  have burst: "in_burst ?s2" by simp
  have step2: "on_tag dev n nread t2 ?l2 ?s2 =
     (Next \<lparr>start_idx = INVALID_IDX, end_idx = n - 1, flags = 0, status = 0\<rparr>,
      s1\<lparr>tx_log := tx_log s1 @
          [\<lparr>buf = conv_buf_at (2 * (int (offset t1) - int nread)),
            num_samples = int (offset t2) - int (offset t1) + 1,
            meta = Some (BLADERF_META_FLAG_TX_NOW OR BLADERF_META_FLAG_TX_BURST_START),
            timeout_ms = stream_timeout_ms s1\<rparr>,
           \<lparr>buf = local_buf [0, 0, 0, 0, 0, 0, 0, 0], num_samples = 4,
            meta = Some BLADERF_META_FLAG_TX_BURST_END,
            timeout_ms = stream_timeout_ms s1\<rparr>],
        in_burst := False\<rparr>)"
    unfolding on_tag_eob_valid [OF eob burst ne le]
    using good
    by (simp add: Let_def zeros_list BLADERF_META_FLAG_TX_NOW_def
        BLADERF_META_FLAG_TX_BURST_START_def BLADERF_META_FLAG_TX_BURST_END_def)
  have "walk dev n nread (pre @ t1 # mid @ t2 # rest) (init_locals n) s =
      walk dev n nread (t1 # mid @ t2 # rest) l1 s1"
    using pre by (simp add: walk_append)
  also have "\<dots> = walk dev n nread (mid @ t2 # rest) ?l2 ?s2"
    using step1 by simp
  also have "\<dots> = walk dev n nread (t2 # rest) ?l2 ?s2"
    by (simp add: walk_append walk_other [OF mid])
  also have "\<dots> = walk dev n nread rest
       \<lparr>start_idx = INVALID_IDX, end_idx = n - 1, flags = 0, status = 0\<rparr>
       (s1\<lparr>tx_log := tx_log s1 @
          [\<lparr>buf = conv_buf_at (2 * (int (offset t1) - int nread)),
            num_samples = int (offset t2) - int (offset t1) + 1,
            meta = Some (BLADERF_META_FLAG_TX_NOW OR BLADERF_META_FLAG_TX_BURST_START),
            timeout_ms = stream_timeout_ms s1\<rparr>,
           \<lparr>buf = local_buf [0, 0, 0, 0, 0, 0, 0, 0], num_samples = 4,
            meta = Some BLADERF_META_FLAG_TX_BURST_END,
            timeout_ms = stream_timeout_ms s1\<rparr>],
        in_burst := False\<rparr>)"
    using step2 by simp
  finally show ?thesis .
qed

text \<open>
  A call that opens a burst and does not close it: after any tags walked to a point
  outside a burst, the start tag, and then tags of other keys only.
\<close>

lemma open_block:
  assumes pre: "walk dev n nread pre (init_locals n) s = (Next l1, s1)"
    and idle: "\<not> in_burst s1" and sob: "key t1 = ''tx_sob''"
    and mid: "list_all other_key mid"
  shows "transmit_with_tags dev n nread (pre @ t1 # mid) s =
     (dev (tx_log s1)
        \<lparr>buf = conv_buf_at (2 * (int (offset t1) - int nread)),
         num_samples = n - 1 - (int (offset t1) - int nread) + 1,
         meta = Some (BLADERF_META_FLAG_TX_NOW OR BLADERF_META_FLAG_TX_BURST_START),
         timeout_ms = stream_timeout_ms s1\<rparr>,
      s1\<lparr>tx_log := tx_log s1 @
          [\<lparr>buf = conv_buf_at (2 * (int (offset t1) - int nread)),
            num_samples = n - 1 - (int (offset t1) - int nread) + 1,
            meta = Some (BLADERF_META_FLAG_TX_NOW OR BLADERF_META_FLAG_TX_BURST_START),
            timeout_ms = stream_timeout_ms s1\<rparr>],
        in_burst := True\<rparr>)"
proof -
  have "\<not> in_burst s \<longrightarrow> flags (init_locals n) = 0" by (simp add: init_locals_def)
  from walk_pending [OF pre this] idle have fl: "flags l1 = 0" by simp
  have "end_idx (init_locals n) = n - 1" by (simp add: init_locals_def)
  from walk_end_idx [OF pre this] have en: "end_idx l1 = n - 1" .
  let ?l2 = "l1\<lparr>start_idx := int (offset t1) - int nread,
      flags := BLADERF_META_FLAG_TX_NOW OR BLADERF_META_FLAG_TX_BURST_START\<rparr>"
  let ?s2 = "s1\<lparr>in_burst := True\<rparr>"
  have step1: "on_tag dev n nread t1 l1 s1 = (Next ?l2, ?s2)"
    using on_tag_sob_idle [OF sob idle, of dev n nread l1] fl by simp
  have "walk dev n nread (pre @ t1 # mid) (init_locals n) s =
      walk dev n nread (t1 # mid) l1 s1"
    using pre by (simp add: walk_append)
  also have "\<dots> = walk dev n nread mid ?l2 ?s2" using step1 by simp
  also have "\<dots> = (Next ?l2, ?s2)" by (rule walk_other [OF mid])
  finally have w: "walk dev n nread (pre @ t1 # mid) (init_locals n) s = (Next ?l2, ?s2)" .
  have "pre @ t1 # mid \<noteq> []" by simp
  from transmit_with_tags_walk [OF this, of dev n nread s] w en show ?thesis
    by (simp add: bladerf_sync_tx_def)
qed

text \<open>Blocks inside a burst whose tags, if any, have other keys.\<close>

lemma continuation_block:
  assumes "in_burst s" and "list_all other_key ts"
  shows "transmit_with_tags dev n nread ts s =
     (dev (tx_log s)
        \<lparr>buf = conv_buf_at 0, num_samples = n, meta = Some 0,
         timeout_ms = stream_timeout_ms s\<rparr>,
      s\<lparr>tx_log := tx_log s @
          [\<lparr>buf = conv_buf_at 0, num_samples = n, meta = Some 0,
            timeout_ms = stream_timeout_ms s\<rparr>]\<rparr>)"
proof (cases "ts = []")
  case True
  with assms(1) show ?thesis
    by (simp add: transmit_with_tags_def init_locals_def bladerf_sync_tx_def)
next
  case False
  from transmit_with_tags_walk [OF False, of dev n nread s]
    walk_other [OF assms(2), of dev n nread "init_locals n" s] assms(1)
  show ?thesis
    by (simp add: init_locals_def bladerf_sync_tx_def)
qed

lemma continuation_blocks:
  assumes "\<forall>h c. dev h c = 0" and "in_burst s"
    and "\<forall>b\<in>set mids. list_all other_key (tags b)"
  shows "transmit_blocks dev mids s =
     (replicate (length mids) 0,
      s\<lparr>tx_log := tx_log s @
          map (\<lambda>b. \<lparr>buf = conv_buf_at 0, num_samples = noutput_items b, meta = Some 0,
                    timeout_ms = stream_timeout_ms s\<rparr>) mids\<rparr>)"
  using assms(2,3)
proof (induction mids arbitrary: s)
  case Nil
  then show ?case by simp
next
  case (Cons b mids)
  let ?c = "\<lparr>buf = conv_buf_at 0, num_samples = noutput_items b, meta = Some 0,
      timeout_ms = stream_timeout_ms s\<rparr>"
  let ?s' = "s\<lparr>tx_log := tx_log s @ [?c]\<rparr>"
  from Cons.prems have "list_all other_key (tags b)" by simp
  from continuation_block [OF Cons.prems(1) this, of dev "noutput_items b" "nitems_read b"]
  have one: "transmit_with_tags dev (noutput_items b) (nitems_read b) (tags b) s = (0, ?s')"
    using assms(1) by simp
  from Cons.prems have "in_burst ?s'" and "\<forall>b\<in>set mids. list_all other_key (tags b)"
    by simp_all
  from Cons.IH [OF this] one show ?case by simp
qed

text \<open>
  A call that closes a burst opened in an earlier call: tags of other keys, the end tag,
  and then any tags.
\<close>

lemma close_block:
  assumes good: "\<forall>h c. dev h c = 0"
    and burst: "in_burst s" and eob: "key t2 = ''tx_eob''"
    and mid: "list_all other_key mid" and win: "nread \<le> offset t2"
  shows "walk dev n nread (mid @ t2 # rest) (init_locals n) s =
     walk dev n nread rest
       \<lparr>start_idx = INVALID_IDX, end_idx = n - 1, flags = 0, status = 0\<rparr>
       (s\<lparr>tx_log := tx_log s @
          [\<lparr>buf = conv_buf_at 0, num_samples = int (offset t2) - int nread + 1,
            meta = Some 0, timeout_ms = stream_timeout_ms s\<rparr>,
           \<lparr>buf = local_buf [0, 0, 0, 0, 0, 0, 0, 0], num_samples = 4,
            meta = Some BLADERF_META_FLAG_TX_BURST_END,
            timeout_ms = stream_timeout_ms s\<rparr>],
        in_burst := False\<rparr>)"
proof -
  have ne: "start_idx (init_locals n) \<noteq> INVALID_IDX"
    by (simp add: init_locals_def INVALID_IDX_def)
  have le: "start_idx (init_locals n) \<le> int (offset t2) - int nread"
    using win by (simp add: init_locals_def)
  have step: "on_tag dev n nread t2 (init_locals n) s =
     (Next \<lparr>start_idx = INVALID_IDX, end_idx = n - 1, flags = 0, status = 0\<rparr>,
      s\<lparr>tx_log := tx_log s @
          [\<lparr>buf = conv_buf_at 0, num_samples = int (offset t2) - int nread + 1,
            meta = Some 0, timeout_ms = stream_timeout_ms s\<rparr>,
           \<lparr>buf = local_buf [0, 0, 0, 0, 0, 0, 0, 0], num_samples = 4,
            meta = Some BLADERF_META_FLAG_TX_BURST_END,
            timeout_ms = stream_timeout_ms s\<rparr>],
        in_burst := False\<rparr>)"
    unfolding on_tag_eob_valid [OF eob burst ne le]
    using good
    by (simp add: Let_def init_locals_def zeros_list BLADERF_META_FLAG_TX_NOW_def
        BLADERF_META_FLAG_TX_BURST_START_def BLADERF_META_FLAG_TX_BURST_END_def)
  have "walk dev n nread (mid @ t2 # rest) (init_locals n) s =
      walk dev n nread (t2 # rest) (init_locals n) s"
    by (simp add: walk_append walk_other [OF mid])
  with step show ?thesis by simp
qed

text \<open>A call whose loop ends outside a burst returns the status local.\<close>

lemma transmit_with_tags_idle_end:
  assumes "ts \<noteq> []" and "walk dev n nread ts (init_locals n) s = (Next l, s')"
    and "\<not> in_burst s'"
  shows "transmit_with_tags dev n nread ts s = (status l, s')"
  using transmit_with_tags_walk [OF assms(1), of dev n nread s] assms(2,3) by simp

lemma transmit_blocks_append:
  "transmit_blocks dev (xs @ ys) s =
     (let (a, s') = transmit_blocks dev xs s;
          (b, s'') = transmit_blocks dev ys s'
      in (a @ b, s''))"
  by (induction xs arbitrary: s) (auto split: prod.splits)

text \<open>
  Claim C4, amended. On a transport whose calls all succeed, whatever tags of other keys
  stand in between and whatever the call has walked before the start tag, as long as the
  start tag is met outside a burst: a start-of-burst tag followed in the same call by its
  end-of-burst tag yields exactly one data call, which carries the start flags, and then
  the trailer of 4 zero samples, which carries the burst-end flag only; the loop goes on
  with the tags that follow, outside a burst. A burst that is opened in one call and closed
  in a later one yields one data call per call it touches: the first from the start tag to
  the end of its block, with the start flags; one whole-block call without flags for every
  block in between; one without flags from the beginning of the last block to the end tag;
  and then the trailer, after which the loop goes on with the tags that follow. The start
  flags are on the first data call only, and the trailer comes right after the last data
  call.
\<close>

theorem burst_transmit_calls:
  assumes good: "\<forall>h c. dev h c = 0"
    and sob: "key t1 = ''tx_sob''" and eob: "key t2 = ''tx_eob''"
  shows
    "(\<forall>pre l1 s1 mid rest.
        walk dev n nread pre (init_locals n) s = (Next l1, s1) \<and> \<not> in_burst s1 \<and>
        list_all other_key mid \<and> nread \<le> offset t1 \<and> offset t1 \<le> offset t2 \<longrightarrow>
        (let s3 = s1\<lparr>tx_log := tx_log s1 @
               [\<lparr>buf = conv_buf_at (2 * (int (offset t1) - int nread)),
                 num_samples = int (offset t2) - int (offset t1) + 1,
                 meta = Some (BLADERF_META_FLAG_TX_NOW OR BLADERF_META_FLAG_TX_BURST_START),
                 timeout_ms = stream_timeout_ms s1\<rparr>,
                \<lparr>buf = local_buf [0, 0, 0, 0, 0, 0, 0, 0], num_samples = 4,
                 meta = Some BLADERF_META_FLAG_TX_BURST_END,
                 timeout_ms = stream_timeout_ms s1\<rparr>],
             in_burst := False\<rparr>
         in walk dev n nread (pre @ t1 # mid @ t2 # rest) (init_locals n) s =
              walk dev n nread rest
                \<lparr>start_idx = INVALID_IDX, end_idx = n - 1, flags = 0, status = 0\<rparr> s3 \<and>
            (list_all other_key rest \<longrightarrow>
               transmit_with_tags dev n nread (pre @ t1 # mid @ t2 # rest) s = (0, s3)))) \<and>
     (\<forall>b1 mids b2 pre mid mid2 rest l1 s1.
        tags b1 = pre @ t1 # mid \<and>
        walk dev (noutput_items b1) (nitems_read b1) pre (init_locals (noutput_items b1)) s =
          (Next l1, s1) \<and>
        \<not> in_burst s1 \<and> list_all other_key mid \<and>
        (\<forall>b\<in>set mids. list_all other_key (tags b)) \<and>
        tags b2 = mid2 @ t2 # rest \<and> list_all other_key mid2 \<and>
        nitems_read b2 \<le> offset t2 \<longrightarrow>
        (let first = \<lparr>buf = conv_buf_at (2 * (int (offset t1) - int (nitems_read b1))),
                num_samples =
                  noutput_items b1 - 1 - (int (offset t1) - int (nitems_read b1)) + 1,
                meta = Some (BLADERF_META_FLAG_TX_NOW OR BLADERF_META_FLAG_TX_BURST_START),
                timeout_ms = stream_timeout_ms s1\<rparr>;
             conts = map (\<lambda>b. \<lparr>buf = conv_buf_at 0, num_samples = noutput_items b,
                meta = Some 0, timeout_ms = stream_timeout_ms s1\<rparr>) mids;
             final = \<lparr>buf = conv_buf_at 0,
                num_samples = int (offset t2) - int (nitems_read b2) + 1,
                meta = Some 0, timeout_ms = stream_timeout_ms s1\<rparr>;
             trailer = \<lparr>buf = local_buf [0, 0, 0, 0, 0, 0, 0, 0], num_samples = 4,
                meta = Some BLADERF_META_FLAG_TX_BURST_END,
                timeout_ms = stream_timeout_ms s1\<rparr>;
             s2 = s1\<lparr>tx_log := tx_log s1 @ first # conts, in_burst := True\<rparr>;
             s3 = s1\<lparr>tx_log := tx_log s1 @ first # conts @ [final, trailer],
                    in_burst := False\<rparr>
         in transmit_blocks dev (b1 # mids) s = (replicate (Suc (length mids)) 0, s2) \<and>
            walk dev (noutput_items b2) (nitems_read b2) (tags b2)
                (init_locals (noutput_items b2)) s2 =
              walk dev (noutput_items b2) (nitems_read b2) rest
                \<lparr>start_idx = INVALID_IDX, end_idx = noutput_items b2 - 1, flags = 0,
                 status = 0\<rparr> s3 \<and>
            (list_all other_key rest \<longrightarrow>
               transmit_blocks dev (b1 # mids @ [b2]) s =
                 (replicate (length mids + 2) 0, s3))))"
proof (intro conjI allI impI)
  fix pre l1 s1 mid rest
  assume "walk dev n nread pre (init_locals n) s = (Next l1, s1) \<and> \<not> in_burst s1 \<and>
    list_all other_key mid \<and> nread \<le> offset t1 \<and> offset t1 \<le> offset t2"
  then have pre: "walk dev n nread pre (init_locals n) s = (Next l1, s1)"
    and idle: "\<not> in_burst s1" and mid: "list_all other_key mid"
    and win: "nread \<le> offset t1" and ord: "offset t1 \<le> offset t2"
    by simp_all
  let ?s3 = "s1\<lparr>tx_log := tx_log s1 @
               [\<lparr>buf = conv_buf_at (2 * (int (offset t1) - int nread)),
                 num_samples = int (offset t2) - int (offset t1) + 1,
                 meta = Some (BLADERF_META_FLAG_TX_NOW OR BLADERF_META_FLAG_TX_BURST_START),
                 timeout_ms = stream_timeout_ms s1\<rparr>,
                \<lparr>buf = local_buf [0, 0, 0, 0, 0, 0, 0, 0], num_samples = 4,
                 meta = Some BLADERF_META_FLAG_TX_BURST_END,
                 timeout_ms = stream_timeout_ms s1\<rparr>],
             in_burst := False\<rparr>"
  let ?l3 = "\<lparr>start_idx = INVALID_IDX, end_idx = n - 1, flags = 0, status = 0\<rparr>"
  have w: "walk dev n nread (pre @ t1 # mid @ t2 # rest) (init_locals n) s =
      walk dev n nread rest ?l3 ?s3"
    by (rule walk_burst [OF good pre idle sob eob mid win ord])
  have r: "transmit_with_tags dev n nread (pre @ t1 # mid @ t2 # rest) s = (0, ?s3)"
    if "list_all other_key rest"
  proof -
    from w walk_other [OF that, of dev n nread ?l3 ?s3]
    have "walk dev n nread (pre @ t1 # mid @ t2 # rest) (init_locals n) s = (Next ?l3, ?s3)"
      by simp
    from transmit_with_tags_idle_end [OF _ this] show ?thesis by simp
  qed
  from w r show "let s3 = ?s3
     in walk dev n nread (pre @ t1 # mid @ t2 # rest) (init_locals n) s =
          walk dev n nread rest ?l3 s3 \<and>
        (list_all other_key rest \<longrightarrow>
           transmit_with_tags dev n nread (pre @ t1 # mid @ t2 # rest) s = (0, s3))"
    by (simp add: Let_def)
next
  fix b1 b2 :: block and mids :: "block list" and pre mid mid2 rest l1 s1
  assume a: "tags b1 = pre @ t1 # mid \<and>
        walk dev (noutput_items b1) (nitems_read b1) pre (init_locals (noutput_items b1)) s =
          (Next l1, s1) \<and>
        \<not> in_burst s1 \<and> list_all other_key mid \<and>
        (\<forall>b\<in>set mids. list_all other_key (tags b)) \<and>
        tags b2 = mid2 @ t2 # rest \<and> list_all other_key mid2 \<and>
        nitems_read b2 \<le> offset t2"
  then have tb1: "tags b1 = pre @ t1 # mid"
    and pre: "walk dev (noutput_items b1) (nitems_read b1) pre
        (init_locals (noutput_items b1)) s = (Next l1, s1)"
    and idle: "\<not> in_burst s1" and mid: "list_all other_key mid"
    and mids: "\<forall>b\<in>set mids. list_all other_key (tags b)"
    and tb2: "tags b2 = mid2 @ t2 # rest" and mid2: "list_all other_key mid2"
    and win: "nitems_read b2 \<le> offset t2"
    by simp_all
  let ?first = "\<lparr>buf = conv_buf_at (2 * (int (offset t1) - int (nitems_read b1))),
      num_samples = noutput_items b1 - 1 - (int (offset t1) - int (nitems_read b1)) + 1,
      meta = Some (BLADERF_META_FLAG_TX_NOW OR BLADERF_META_FLAG_TX_BURST_START),
      timeout_ms = stream_timeout_ms s1\<rparr>"
  let ?conts = "map (\<lambda>b. \<lparr>buf = conv_buf_at 0, num_samples = noutput_items b,
      meta = Some 0, timeout_ms = stream_timeout_ms s1\<rparr>) mids"
  let ?final = "\<lparr>buf = conv_buf_at 0,
      num_samples = int (offset t2) - int (nitems_read b2) + 1,
      meta = Some 0, timeout_ms = stream_timeout_ms s1\<rparr>"
  let ?trailer = "\<lparr>buf = local_buf [0, 0, 0, 0, 0, 0, 0, 0], num_samples = 4,
      meta = Some BLADERF_META_FLAG_TX_BURST_END, timeout_ms = stream_timeout_ms s1\<rparr>"
  let ?s1' = "s1\<lparr>tx_log := tx_log s1 @ [?first], in_burst := True\<rparr>"
  let ?s2 = "s1\<lparr>tx_log := tx_log s1 @ ?first # ?conts, in_burst := True\<rparr>"
  let ?s3 = "s1\<lparr>tx_log := tx_log s1 @ ?first # ?conts @ [?final, ?trailer],
      in_burst := False\<rparr>"
  let ?l3 = "\<lparr>start_idx = INVALID_IDX, end_idx = noutput_items b2 - 1, flags = 0,
      status = 0\<rparr>"
  have one: "transmit_with_tags dev (noutput_items b1) (nitems_read b1) (tags b1) s =
      (0, ?s1')"
    unfolding tb1 open_block [OF pre idle sob mid] using good by simp
  have "in_burst ?s1'" by simp
  from continuation_blocks [OF good this mids]
  have cont: "transmit_blocks dev mids ?s1' = (replicate (length mids) 0, ?s2)"
    by simp
  have upto: "transmit_blocks dev (b1 # mids) s = (replicate (Suc (length mids)) 0, ?s2)"
    using one cont by simp
  have "in_burst ?s2" by simp
  from close_block [OF good this eob mid2 win, of "noutput_items b2" rest]
  have closing: "walk dev (noutput_items b2) (nitems_read b2) (tags b2)
        (init_locals (noutput_items b2)) ?s2 =
      walk dev (noutput_items b2) (nitems_read b2) rest ?l3 ?s3"
    by (simp add: tb2)
  have whole: "transmit_blocks dev (b1 # mids @ [b2]) s =
      (replicate (length mids + 2) 0, ?s3)"
    if "list_all other_key rest"
  proof -
    from closing walk_other [OF that, of dev "noutput_items b2" "nitems_read b2" ?l3 ?s3]
    have "walk dev (noutput_items b2) (nitems_read b2) (tags b2)
        (init_locals (noutput_items b2)) ?s2 = (Next ?l3, ?s3)"
      by simp
    from transmit_with_tags_idle_end [OF _ this]
    have last: "transmit_with_tags dev (noutput_items b2) (nitems_read b2) (tags b2) ?s2 =
        (0, ?s3)"
      by (simp add: tb2)
    have "transmit_blocks dev ((b1 # mids) @ [b2]) s =
        (replicate (Suc (length mids)) 0 @ [0], ?s3)"
      unfolding transmit_blocks_append upto using last by simp
    then show ?thesis by (simp add: replicate_append_same)
  qed
  from upto closing whole
  show "let first = ?first; conts = ?conts; final = ?final; trailer = ?trailer;
          s2 = s1\<lparr>tx_log := tx_log s1 @ first # conts, in_burst := True\<rparr>;
          s3 = s1\<lparr>tx_log := tx_log s1 @ first # conts @ [final, trailer],
                 in_burst := False\<rparr>
      in transmit_blocks dev (b1 # mids) s = (replicate (Suc (length mids)) 0, s2) \<and>
         walk dev (noutput_items b2) (nitems_read b2) (tags b2)
             (init_locals (noutput_items b2)) s2 =
           walk dev (noutput_items b2) (nitems_read b2) rest ?l3 s3 \<and>
         (list_all other_key rest \<longrightarrow>
            transmit_blocks dev (b1 # mids @ [b2]) s =
              (replicate (length mids + 2) 0, s3))"
    by (simp add: Let_def)
qed

theorem burst_transmit_calls_witness:
  "(\<forall>h c. good_device h c = 0) \<and>
   key (sob_at 10) = ''tx_sob'' \<and> key (eob_at 60) = ''tx_eob'' \<and>
   key (sob_at 50) = ''tx_sob'' \<and> key (eob_at 260) = ''tx_eob'' \<and>
   transmit_with_tags good_device 100 0
     ([] @ sob_at 10 # [\<lparr>offset = 20, key = ''rx_time''\<rparr>] @ eob_at 60 # []) idle_sink =
     (0, idle_sink\<lparr>tx_log :=
        [\<lparr>buf = conv_buf_at 20, num_samples = 51, meta = Some 5, timeout_ms = 3000\<rparr>,
         \<lparr>buf = local_buf [0, 0, 0, 0, 0, 0, 0, 0], num_samples = 4, meta = Some 2,
          timeout_ms = 3000\<rparr>]\<rparr>) \<and>
   walk good_device 100 0 [eob_at 30] (init_locals 100) (idle_sink\<lparr>in_burst := True\<rparr>) =
     (Next \<lparr>start_idx = - 1, end_idx = 99, flags = 0, status = 0\<rparr>,
      idle_sink\<lparr>tx_log :=
        [\<lparr>buf = conv_buf_at 0, num_samples = 31, meta = Some 0, timeout_ms = 3000\<rparr>,
         \<lparr>buf = local_buf [0, 0, 0, 0, 0, 0, 0, 0], num_samples = 4, meta = Some 2,
          timeout_ms = 3000\<rparr>]\<rparr>) \<and>
   transmit_blocks good_device
     (\<lparr>noutput_items = 100, nitems_read = 0, tags = [eob_at 30, sob_at 50],
       realloc_ok = True\<rparr> #
      [\<lparr>noutput_items = 100, nitems_read = 100,
        tags = [\<lparr>offset = 150, key = ''rx_time''\<rparr>], realloc_ok = True\<rparr>] @
      [\<lparr>noutput_items = 100, nitems_read = 200, tags = [eob_at 260], realloc_ok = True\<rparr>])
     (idle_sink\<lparr>in_burst := True\<rparr>) =
     ([0, 0, 0],
      idle_sink\<lparr>tx_log :=
        [\<lparr>buf = conv_buf_at 0, num_samples = 31, meta = Some 0, timeout_ms = 3000\<rparr>,
         \<lparr>buf = local_buf [0, 0, 0, 0, 0, 0, 0, 0], num_samples = 4, meta = Some 2,
          timeout_ms = 3000\<rparr>,
         \<lparr>buf = conv_buf_at 100, num_samples = 50, meta = Some 5, timeout_ms = 3000\<rparr>,
         \<lparr>buf = conv_buf_at 0, num_samples = 100, meta = Some 0, timeout_ms = 3000\<rparr>,
         \<lparr>buf = conv_buf_at 0, num_samples = 61, meta = Some 0, timeout_ms = 3000\<rparr>,
         \<lparr>buf = local_buf [0, 0, 0, 0, 0, 0, 0, 0], num_samples = 4, meta = Some 2,
          timeout_ms = 3000\<rparr>]\<rparr>)"
proof -
  let ?trailer = "\<lparr>buf = local_buf [0, 0, 0, 0, 0, 0, 0, 0], num_samples = 4,
      meta = Some (2 :: 32 word), timeout_ms = 3000\<rparr>"
  let ?s1 = "idle_sink\<lparr>tx_log :=
      [\<lparr>buf = conv_buf_at 0, num_samples = 31, meta = Some 0, timeout_ms = 3000\<rparr>,
       ?trailer]\<rparr>"
  let ?b1 = "\<lparr>noutput_items = 100, nitems_read = 0, tags = [eob_at 30, sob_at 50],
      realloc_ok = True\<rparr>"
  let ?bm = "\<lparr>noutput_items = 100, nitems_read = 100,
      tags = [\<lparr>offset = 150, key = ''rx_time''\<rparr>], realloc_ok = True\<rparr>"
  let ?b2 = "\<lparr>noutput_items = 100, nitems_read = 200, tags = [eob_at 260],
      realloc_ok = True\<rparr>"
  have h1: "\<forall>h c. good_device h c = 0" by (simp add: good_device_def)
  have h2: "key (sob_at 10) = ''tx_sob''" "key (sob_at 50) = ''tx_sob''"
    by (simp_all add: sob_at_def)
  have h3: "key (eob_at 60) = ''tx_eob''" "key (eob_at 260) = ''tx_eob''"
    by (simp_all add: eob_at_def)
  have pa: "walk good_device 100 0 [] (init_locals 100) idle_sink =
        (Next (init_locals 100), idle_sink) \<and>
      \<not> in_burst idle_sink \<and> list_all other_key [\<lparr>offset = 20, key = ''rx_time''\<rparr>] \<and>
      0 \<le> offset (sob_at 10) \<and> offset (sob_at 10) \<le> offset (eob_at 60)"
    by (simp add: idle_sink_def other_key_def sob_at_def eob_at_def)
  have same: "transmit_with_tags good_device 100 0
     ([] @ sob_at 10 # [\<lparr>offset = 20, key = ''rx_time''\<rparr>] @ eob_at 60 # []) idle_sink =
     (0, idle_sink\<lparr>tx_log :=
        [\<lparr>buf = conv_buf_at 20, num_samples = 51, meta = Some 5, timeout_ms = 3000\<rparr>,
         ?trailer]\<rparr>)"
    using burst_transmit_calls [OF h1 h2(1) h3(1), of 100 0 idle_sink,
        THEN conjunct1, rule_format, OF pa, of "[]"]
    by (simp add: Let_def idle_sink_def sob_at_def eob_at_def
        BLADERF_META_FLAG_TX_NOW_def BLADERF_META_FLAG_TX_BURST_START_def
        BLADERF_META_FLAG_TX_BURST_END_def)
  have pre: "walk good_device 100 0 [eob_at 30] (init_locals 100)
      (idle_sink\<lparr>in_burst := True\<rparr>) =
     (Next \<lparr>start_idx = - 1, end_idx = 99, flags = 0, status = 0\<rparr>, ?s1)"
    by (simp add: on_tag_def init_locals_def bladerf_sync_tx_def good_device_def
        idle_sink_def eob_at_def zeros_list INVALID_IDX_def Let_def
        BLADERF_META_FLAG_TX_NOW_def BLADERF_META_FLAG_TX_BURST_START_def
        BLADERF_META_FLAG_TX_BURST_END_def)
  have pb: "tags ?b1 = [eob_at 30] @ sob_at 50 # [] \<and>
      walk good_device (noutput_items ?b1) (nitems_read ?b1) [eob_at 30]
          (init_locals (noutput_items ?b1)) (idle_sink\<lparr>in_burst := True\<rparr>) =
        (Next \<lparr>start_idx = - 1, end_idx = 99, flags = 0, status = 0\<rparr>, ?s1) \<and>
      \<not> in_burst ?s1 \<and> list_all other_key [] \<and>
      (\<forall>b\<in>set [?bm]. list_all other_key (tags b)) \<and>
      tags ?b2 = [] @ eob_at 260 # [] \<and> list_all other_key [] \<and>
      nitems_read ?b2 \<le> offset (eob_at 260)"
    using pre by (simp add: idle_sink_def other_key_def eob_at_def)
  have across: "transmit_blocks good_device (?b1 # [?bm] @ [?b2])
      (idle_sink\<lparr>in_burst := True\<rparr>) =
     ([0, 0, 0],
      idle_sink\<lparr>tx_log :=
        [\<lparr>buf = conv_buf_at 0, num_samples = 31, meta = Some 0, timeout_ms = 3000\<rparr>,
         ?trailer,
         \<lparr>buf = conv_buf_at 100, num_samples = 50, meta = Some 5, timeout_ms = 3000\<rparr>,
         \<lparr>buf = conv_buf_at 0, num_samples = 100, meta = Some 0, timeout_ms = 3000\<rparr>,
         \<lparr>buf = conv_buf_at 0, num_samples = 61, meta = Some 0, timeout_ms = 3000\<rparr>,
         ?trailer]\<rparr>)"
    using burst_transmit_calls [OF h1 h2(2) h3(2), of 100 0 "idle_sink\<lparr>in_burst := True\<rparr>",
        THEN conjunct2, rule_format, OF pb]
    by (simp add: Let_def idle_sink_def sob_at_def eob_at_def
        BLADERF_META_FLAG_TX_NOW_def BLADERF_META_FLAG_TX_BURST_START_def
        BLADERF_META_FLAG_TX_BURST_END_def)
  from h1 h2 h3 same pre across show ?thesis by simp
qed

subsection \<open>The device registry\<close>










end
